theory Spec2Isabelle
  imports Main
begin

section \<open>Python values, errors and ordered dictionaries\<close>

text \<open>
  The frontmatter header of a post maps string keys to scalar values. The only thing
  \<^verbatim>\<open>syndicate/utils.py\<close> asks of such a value is its truth value (\<^verbatim>\<open>if not ...\<close>),
  so the model keeps the scalars of YAML and Python's rule for each of them.
\<close>

datatype pyval = VNone | VBool bool | VInt int | VStr string

fun truthy :: "pyval \<Rightarrow> bool" where
  "truthy VNone = False"
| "truthy (VBool b) = b"
| "truthy (VInt i) = (i \<noteq> 0)"
| "truthy (VStr s) = (s \<noteq> [])"

text \<open>Every \<^verbatim>\<open>raise\<close> and failed \<^verbatim>\<open>assert\<close> is a value; an assertion carries its message.\<close>

datatype error =
    AssertionError string
  | KeyError string
  | TypeError
  | AttributeError
  | UnboundLocalError string
  | UnicodeDecodeError
  | ParseError

text \<open>
  A Python \<^verbatim>\<open>dict\<close> keeps insertion order: assigning to a key that is present replaces
  its value where it stands, assigning to a new key appends it.
\<close>

type_synonym ('k, 'v) dict = "('k \<times> 'v) list"

fun dict_set :: "'k \<Rightarrow> 'v \<Rightarrow> ('k, 'v) dict \<Rightarrow> ('k, 'v) dict" where
  "dict_set k v [] = [(k, v)]"
| "dict_set k v ((k', v') # d) = (if k' = k then (k, v) # d else (k', v') # dict_set k v d)"

definition dict_get :: "('k, 'v) dict \<Rightarrow> 'k \<Rightarrow> 'v option" where
  "dict_get d k = map_of d k"

definition dict_keys :: "('k, 'v) dict \<Rightarrow> 'k list" where
  "dict_keys d = map fst d"

text \<open>\<^verbatim>\<open>dict(a, **b)\<close>: a copy of \<open>a\<close> updated with the items of \<open>b\<close> in their order.\<close>

definition dict_update :: "('k, 'v) dict \<Rightarrow> ('k, 'v) dict \<Rightarrow> ('k, 'v) dict" where
  "dict_update a b = fold (\<lambda>(k, v) d. dict_set k v d) b a"

section \<open>Posts\<close>

text \<open>
  \<^verbatim>\<open>frontmatter.Post(content, handler=None, **metadata)\<close> holds the body text, the
  header and the handler it was parsed with. It defines neither \<^verbatim>\<open>__bool__\<close> nor
  \<^verbatim>\<open>__len__\<close>, so every \<^verbatim>\<open>Post\<close> object is true. A \<^verbatim>\<open>github3\<close> \<^verbatim>\<open>Contents\<close> object is
  the file as the host returned it; \<^verbatim>\<open>decoded\<close> is its bytes.
\<close>

record post =
  metadata :: "(string, pyval) dict"
  content :: string
  handler :: "pyval option"

record contents =
  path :: string
  decoded :: string

text \<open>
  What a caller can pass where a post is expected: \<^verbatim>\<open>None\<close> (what the host's
  \<^verbatim>\<open>file_contents\<close> returns for a file it does not have), a string, a \<^verbatim>\<open>Contents\<close>
  object or a \<^verbatim>\<open>frontmatter.Post\<close>.
\<close>

datatype pyobj = PyNone | PyStr string | PyContents contents | PyPost post

fun obj_truthy :: "pyobj \<Rightarrow> bool" where
  "obj_truthy PyNone = False"
| "obj_truthy (PyStr s) = (s \<noteq> [])"
| "obj_truthy (PyContents c) = True"
| "obj_truthy (PyPost p) = True"

text \<open>
  What this module needs of the libraries it imports: decoding bytes, parsing and
  serialising a document with frontmatter, \<^verbatim>\<open>str.lower()\<close>, and how Python prints a
  \<^verbatim>\<open>set\<close> inside an f-string (the order of a set's elements is not fixed by the
  language).
\<close>

record lib =
  decode_utf8 :: "string \<Rightarrow> error + string"
  loads :: "string \<Rightarrow> error + post"
  dumps :: "post \<Rightarrow> string"
  str_lower :: "string \<Rightarrow> string"
  format_set :: "string set \<Rightarrow> string"

text \<open>
  \<^verbatim>\<open>fronted\<close>, lines 124 to 135. A string has no attribute \<^verbatim>\<open>decoded\<close>.
\<close>

definition fronted :: "lib \<Rightarrow> pyobj \<Rightarrow> error + post" where
  "fronted l p =
     (if \<not> obj_truthy p then Inl (AssertionError ''missing post'')
      else case p of
        PyPost fp \<Rightarrow> Inr fp
      | PyContents c \<Rightarrow>
          (case decode_utf8 l (decoded c) of
             Inl e \<Rightarrow> Inl e
           | Inr raw_contents \<Rightarrow> loads l raw_contents)
      | _ \<Rightarrow> Inl AttributeError)"

section \<open>Syndicate keys and the frontmatter merge\<close>

text \<open>\<^verbatim>\<open>syndicate_key_for\<close>, lines 137 to 142.\<close>

definition syndicate_key_for :: "lib \<Rightarrow> string \<Rightarrow> string" where
  "syndicate_key_for l silo = str_lower l silo @ ''_syndicate_id''"

text \<open>\<^verbatim>\<open>Post.get(key)\<close> answers \<^verbatim>\<open>None\<close> for a key the header does not have.\<close>

definition post_get :: "post \<Rightarrow> string \<Rightarrow> pyval" where
  "post_get fp k = (case dict_get (metadata fp) k of None \<Rightarrow> VNone | Some v \<Rightarrow> v)"

text \<open>\<^verbatim>\<open>syndicate_id_for\<close>, lines 144 to 151.\<close>

definition syndicate_id_for :: "lib \<Rightarrow> pyobj \<Rightarrow> string \<Rightarrow> error + pyval" where
  "syndicate_id_for l p silo =
     (if \<not> obj_truthy p then Inl (AssertionError ''missing post'')
      else if silo = [] then Inl (AssertionError ''missing silo'')
      else case fronted l p of
        Inl e \<Rightarrow> Inl e
      | Inr fp \<Rightarrow> Inr (post_get fp (syndicate_key_for l silo)))"

text \<open>
  \<^verbatim>\<open>str(v)\<close> for the scalars of a header, which \<^verbatim>\<open>Post.__init__\<close> applies to its
  \<^verbatim>\<open>content\<close> argument.
\<close>

fun digits :: "nat \<Rightarrow> string" where
  "digits n =
     (if n < 10 then [char_of (48 + n)] else digits (n div 10) @ [char_of (48 + n mod 10)])"

fun py_str :: "pyval \<Rightarrow> string" where
  "py_str VNone = ''None''"
| "py_str (VBool b) = (if b then ''True'' else ''False'')"
| "py_str (VInt i) = (if i < 0 then CHR ''-'' # digits (nat (- i)) else digits (nat i))"
| "py_str (VStr s) = s"

text \<open>
  \<^verbatim>\<open>Post.to_dict()\<close> is a copy of the header with the body stored under the key
  \<^verbatim>\<open>content\<close>. \<^verbatim>\<open>frontmatter.Post(**d)\<close> binds the keyword \<^verbatim>\<open>content\<close> to the body and
  \<^verbatim>\<open>handler\<close> to the handler, and keeps every other keyword as the header; a keyword
  \<^verbatim>\<open>self\<close> collides with the bound instance and a missing \<^verbatim>\<open>content\<close> is a missing
  argument, both a \<^verbatim>\<open>TypeError\<close>.
\<close>

definition to_dict :: "post \<Rightarrow> (string, pyval) dict" where
  "to_dict p = dict_set ''content'' (VStr (content p)) (metadata p)"

definition Post_init :: "(string, pyval) dict \<Rightarrow> error + post" where
  "Post_init d =
     (if ''self'' \<in> set (dict_keys d) then Inl TypeError
      else case dict_get d ''content'' of
        None \<Rightarrow> Inl TypeError
      | Some c \<Rightarrow>
          Inr \<lparr>metadata = filter (\<lambda>(k, v). k \<noteq> ''content'' \<and> k \<noteq> ''handler'') d,
               content = py_str c,
               handler = dict_get d ''handler''\<rparr>)"

text \<open>
  The inner loop of \<^verbatim>\<open>mark_syndicated_posts\<close>, lines 176 to 181: the new syndicate IDs
  of one post, and the silos they came from.
\<close>

fun new_syndicate_ids ::
  "lib \<Rightarrow> post \<Rightarrow> (string \<times> pyval) list \<Rightarrow> (string, pyval) dict \<times> string set
     \<Rightarrow> error + ((string, pyval) dict \<times> string set)" where
  "new_syndicate_ids l fp [] acc = Inr acc"
| "new_syndicate_ids l fp ((silo, sid) # rest) (new, silos) =
     (case syndicate_id_for l (PyPost fp) silo of
        Inl e \<Rightarrow> Inl e
      | Inr v \<Rightarrow>
          (if \<not> truthy v
           then new_syndicate_ids l fp rest
                  (dict_set (syndicate_key_for l silo) sid new, insert silo silos)
           else new_syndicate_ids l fp rest (new, silos)))"

text \<open>
  The body of the outer loop for one post, lines 168 to 189: \<open>None\<close> when there is
  nothing new (\<^verbatim>\<open>continue\<close>), otherwise the post rebuilt from the old header merged
  with the new IDs.
\<close>

definition mark_post ::
  "lib \<Rightarrow> post \<Rightarrow> (string \<times> pyval) list \<Rightarrow> string set \<Rightarrow> error + (post option \<times> string set)" where
  "mark_post l fp syndicate_ids_by_silo silos =
     (case new_syndicate_ids l fp syndicate_ids_by_silo ([], silos) of
        Inl e \<Rightarrow> Inl e
      | Inr (new, silos') \<Rightarrow>
          if new = [] then Inr (None, silos')
          else (case Post_init (dict_update (to_dict fp) new) of
                  Inl e \<Rightarrow> Inl e
                | Inr updated_post \<Rightarrow> Inr (Some updated_post, silos')))"

text \<open>The outer loop, lines 165 to 189.\<close>

fun mark_loop ::
  "lib \<Rightarrow> (string, post) dict \<Rightarrow> (string \<times> (string \<times> pyval) list) list
     \<Rightarrow> (string, post) dict \<times> string set \<Rightarrow> error + ((string, post) dict \<times> string set)" where
  "mark_loop l fronted_posts_by_path [] acc = Inr acc"
| "mark_loop l fronted_posts_by_path ((p, syndicate_ids_by_silo) # rest) (updated, silos) =
     (case dict_get fronted_posts_by_path p of
        None \<Rightarrow> Inl (KeyError p)
      | Some fronted_post \<Rightarrow>
          (case mark_post l fronted_post syndicate_ids_by_silo silos of
             Inl e \<Rightarrow> Inl e
           | Inr (None, silos') \<Rightarrow>
               mark_loop l fronted_posts_by_path rest (updated, silos')
           | Inr (Some updated_post, silos') \<Rightarrow>
               mark_loop l fronted_posts_by_path rest
                 (dict_set p updated_post updated, silos')))"

section \<open>The workflow process and the source-control host\<close>

text \<open>
  The functions of \<^verbatim>\<open>utils.py\<close> read the environment of the process, print workflow
  commands on standard output and talk to the host. Each printing helper of lines 8 to
  47 has its own line format; \<open>render\<close> gives the text of each.
\<close>

datatype line =
    Log string
  | Debug string
  | Warning string
  | Error string
  | SetEnv string string
  | SetOutput string string

fun render :: "line \<Rightarrow> string" where
  "render (Log msg) = msg"
| "render (Debug msg) = ''::debug::'' @ msg"
| "render (Warning msg) = ''::warning::'' @ msg"
| "render (Error msg) = ''::error::'' @ msg"
| "render (SetEnv k v) = ''::set-env name='' @ k @ ''::'' @ v"
| "render (SetOutput k v) = ''::set-output name='' @ k @ ''::'' @ v"

record changed_file =
  filename :: string
  status :: string

record tree_entry =
  entry_path :: string
  entry_mode :: string
  entry_type :: string
  entry_sha :: string

text \<open>The requests sent to the host, in the order they were sent.\<close>

datatype api_call =
    GetRepository string string
  | GetCommit string
  | GetFileContents string string
  | CreateBlob string string
  | CreateTree "tree_entry list" string
  | CreateCommit string string "string list"
  | PutRef string string string

text \<open>
  What the host answers. \<^verbatim>\<open>github3\<close> gives \<^verbatim>\<open>None\<close> for an object the host does not
  have or refuses to create (\<open>None\<close> below), and the empty string for a blob it could
  not create. The answer to the reference update is a status code and a JSON body.
\<close>

record host =
  commit_files :: "string \<Rightarrow> changed_file list option"
  file_at :: "string \<Rightarrow> string \<Rightarrow> contents option"
  blob_sha :: "string \<Rightarrow> string"
  tree_sha :: "tree_entry list \<Rightarrow> string \<Rightarrow> string option"
  commit_sha :: "string \<Rightarrow> string \<Rightarrow> string list \<Rightarrow> string option"
  ref_response :: "string \<Rightarrow> string \<Rightarrow> nat \<times> string"

text \<open>
  The state a run acts on: the environment of the process, whether \<^verbatim>\<open>repo()\<close> has been
  memoised, the lines printed, the requests sent, the host, and the references of the
  repository on the host (keyed by the URL of the reference).
\<close>

record world =
  environ :: "string \<rightharpoonup> string"
  repo_cached :: bool
  stdout :: "line list"
  calls :: "api_call list"
  the_host :: host
  refs :: "string \<rightharpoonup> string"

type_synonym 'a action = "world \<Rightarrow> (error + 'a) \<times> world"

definition and_then :: "'a action \<Rightarrow> ('a \<Rightarrow> 'b action) \<Rightarrow> 'b action" where
  "and_then m f w = (case m w of (Inl e, w') \<Rightarrow> (Inl e, w') | (Inr x, w') \<Rightarrow> f x w')"

definition print_line :: "line \<Rightarrow> world \<Rightarrow> world" where
  "print_line ln w = w\<lparr>stdout := stdout w @ [ln]\<rparr>"

definition send :: "api_call \<Rightarrow> world \<Rightarrow> world" where
  "send c w = w\<lparr>calls := calls w @ [c]\<rparr>"

text \<open>\<^verbatim>\<open>assert os.getenv(k)\<close> holds when the variable is set and not empty.\<close>

definition env_true :: "world \<Rightarrow> string \<Rightarrow> bool" where
  "env_true w k = (case environ w k of None \<Rightarrow> False | Some v \<Rightarrow> v \<noteq> [])"

definition getenv :: "world \<Rightarrow> string \<Rightarrow> string" where
  "getenv w k = (case environ w k of None \<Rightarrow> [] | Some v \<Rightarrow> v)"

text \<open>\<^verbatim>\<open>str.split(sep)\<close>: one more part than there are separators.\<close>

fun split_on :: "char \<Rightarrow> string \<Rightarrow> string list" where
  "split_on c [] = [[]]"
| "split_on c (x # xs) =
     (if x = c then [] # split_on c xs
      else (case split_on c xs of
              [] \<Rightarrow> [[x]]
            | part # parts \<Rightarrow> (x # part) # parts))"

text \<open>
  \<^verbatim>\<open>repo()\<close>, lines 63 to 75. \<^verbatim>\<open>lru_cache\<close> keeps the first value returned, so the
  assertions and the request for the repository happen on the first call that gets
  through. \<^verbatim>\<open>gh.repository\<close> takes exactly two names.
\<close>

definition repo :: "unit action" where
  "repo w =
     (if repo_cached w then (Inr (), w)
      else if \<not> env_true w ''GITHUB_TOKEN'' then (Inl (AssertionError ''missing GITHUB_TOKEN''), w)
      else if \<not> env_true w ''GITHUB_REPOSITORY''
        then (Inl (AssertionError ''missing GITHUB_REPOSITORY''), w)
      else (case split_on CHR ''/'' (getenv w ''GITHUB_REPOSITORY'') of
              [owner, name] \<Rightarrow> (Inr (), (send (GetRepository owner name) w)\<lparr>repo_cached := True\<rparr>)
            | _ \<Rightarrow> (Inl TypeError, w)))"

text \<open>\<^verbatim>\<open>parent_sha\<close>, lines 77 to 83.\<close>

definition parent_sha :: "world \<Rightarrow> error + string" where
  "parent_sha w =
     (if \<not> env_true w ''GITHUB_SHA'' then Inl (AssertionError ''missing GITHUB_SHA'')
      else Inr (case environ w ''SYNDICATE_SHA'' of
                  None \<Rightarrow> getenv w ''GITHUB_SHA''
                | Some s \<Rightarrow> s))"

text \<open>\<^verbatim>\<open>get_trigger_payload\<close>, lines 85 to 95. \<^verbatim>\<open>None.files\<close> is an attribute error.\<close>

definition get_trigger_payload :: "changed_file list action" where
  "get_trigger_payload w =
     (if \<not> env_true w ''GITHUB_SHA'' then (Inl (AssertionError ''missing GITHUB_SHA''), w)
      else and_then repo (\<lambda>_ w1.
        let sha = getenv w1 ''GITHUB_SHA''; w2 = send (GetCommit sha) w1
        in (case commit_files (the_host w2) sha of
              None \<Rightarrow> (Inl AttributeError, w2)
            | Some files \<Rightarrow> (Inr files, w2))) w)"

text \<open>
  \<^verbatim>\<open>file_contents\<close>, lines 97 to 107: \<^verbatim>\<open>repo()\<close> is evaluated before the argument
  \<^verbatim>\<open>parent_sha()\<close>.
\<close>

definition file_contents :: "string \<Rightarrow> pyobj action" where
  "file_contents name w =
     and_then repo (\<lambda>_ w1.
       case parent_sha w1 of
         Inl e \<Rightarrow> (Inl e, w1)
       | Inr sha \<Rightarrow>
           let w2 = send (GetFileContents name sha) w1
           in (Inr (case file_at (the_host w2) name sha of
                      None \<Rightarrow> PyNone
                    | Some c \<Rightarrow> PyContents c), w2)) w"

text \<open>
  The commit that reads are made at: the \<^verbatim>\<open>SYNDICATE_SHA\<close> override when the variable
  is set, the triggering commit otherwise; and what \<^verbatim>\<open>file_contents\<close> returns there.
\<close>

definition known_commit :: "world \<Rightarrow> string" where
  "known_commit w = (case environ w ''SYNDICATE_SHA'' of None \<Rightarrow> getenv w ''GITHUB_SHA'' | Some s \<Rightarrow> s)"

definition fetched :: "world \<Rightarrow> string \<Rightarrow> pyobj" where
  "fetched w name = (case file_at (the_host w) name (known_commit w) of None \<Rightarrow> PyNone | Some c \<Rightarrow> PyContents c)"

text \<open>\<^verbatim>\<open>str.startswith\<close>.\<close>

definition startswith :: "string \<Rightarrow> string \<Rightarrow> bool" where
  "startswith s p = (take (length p) s = p)"

text \<open>The default of \<^verbatim>\<open>post_dir\<close>, line 109.\<close>

definition default_post_dir :: "world \<Rightarrow> string" where
  "default_post_dir w = (case environ w ''SYNDICATE_POST_DIR'' of None \<Rightarrow> ''posts'' | Some d \<Rightarrow> d)"

text \<open>The list comprehension of lines 118 to 122.\<close>

fun fetch_posts :: "changed_file list \<Rightarrow> pyobj list action" where
  "fetch_posts [] w = (Inr [], w)"
| "fetch_posts (p # posts) w =
     (if status p \<noteq> ''deleted''
      then and_then (file_contents (filename p)) (\<lambda>c.
             and_then (fetch_posts posts) (\<lambda>cs w'. (Inr (c # cs), w'))) w
      else fetch_posts posts w)"

text \<open>\<^verbatim>\<open>get_posts\<close>, lines 109 to 122.\<close>

definition get_posts :: "string \<Rightarrow> pyobj list action" where
  "get_posts post_dir w =
     and_then get_trigger_payload (\<lambda>files w1.
       if files = [] then (Inl (AssertionError ''target commit was empty''), w1)
       else fetch_posts (filter (\<lambda>file. startswith (filename file) post_dir) files) w1) w"

section \<open>The commit protocol\<close>

text \<open>\<^verbatim>\<open>os.getenv(k)\<close> inside an f-string: \<^verbatim>\<open>None\<close> prints as its name.\<close>

definition env_str :: "world \<Rightarrow> string \<Rightarrow> string" where
  "env_str w k = (case environ w k of None \<Rightarrow> ''None'' | Some v \<Rightarrow> v)"

text \<open>The dictionary comprehension of lines 219 to 222, one blob for each post.\<close>

fun create_blobs :: "lib \<Rightarrow> (string \<times> post) list \<Rightarrow> (string, string) dict \<Rightarrow> (string, string) dict action" where
  "create_blobs l [] acc w = (Inr acc, w)"
| "create_blobs l ((p, fronted_post) # rest) acc w =
     and_then repo (\<lambda>_ w1.
       let text = dumps l fronted_post;
           w2 = send (CreateBlob text ''utf-8'') w1
       in create_blobs l rest (dict_set p (blob_sha (the_host w2) text) acc) w2) w"

text \<open>The entries of the new tree, lines 226 to 234.\<close>

definition tree_entries :: "(string, string) dict \<Rightarrow> tree_entry list" where
  "tree_entries new_blobs_by_path =
     map (\<lambda>(p, sha). \<lparr>entry_path = p, entry_mode = ''100644'', entry_type = ''blob'',
                       entry_sha = sha\<rparr>) new_blobs_by_path"

text \<open>
  \<^verbatim>\<open>requests.put\<close> on the URL of a reference: the request is recorded, and the host moves
  the reference to the given commit exactly when it answers 200.
\<close>

definition put_ref :: "string \<Rightarrow> string \<Rightarrow> string \<Rightarrow> world \<Rightarrow> (nat \<times> string) \<times> world" where
  "put_ref url auth sha w =
     (let response = ref_response (the_host w) url sha;
          w1 = send (PutRef url auth sha) w
      in (response, if fst response = 200 then w1\<lparr>refs := (refs w1)(url \<mapsto> sha)\<rparr> else w1))"

text \<open>The reference update and what follows it, lines 247 to 262.\<close>

definition ref_url :: "world \<Rightarrow> string" where
  "ref_url w = ''https://api.github.com/repos/'' @ env_str w ''GITHUB_REPOSITORY''
                 @ ''/git/'' @ env_str w ''GITHUB_REF''"

definition authorization :: "world \<Rightarrow> string" where
  "authorization w = ''token '' @ env_str w ''GITHUB_TOKEN''"

definition update_reference :: "string \<Rightarrow> string option action" where
  "update_reference new_commit w =
     (let (response, w1) = put_ref (ref_url w) (authorization w) new_commit w
      in if fst response = 200
         then (Inr (Some (snd response)),
               print_line (Log ''Syndicate posts marked.'')
                 (print_line (SetEnv ''SYNDICATE_SHA'' new_commit) w1))
         else (Inr None,
               print_line (Error (''Failed to mark syndicated posts: '' @ snd response)) w1))"

text \<open>
  Lines 224 to 262, with the local name \<^verbatim>\<open>parent_sha\<close> bound to \<open>parent\<close>: the new
  tree over the parent's, the new commit, the reference update. \<^verbatim>\<open>None.sha\<close> is an
  attribute error, raised while the arguments of the next request are evaluated.
\<close>

definition commit_from ::
  "lib \<Rightarrow> (string, string) dict \<Rightarrow> string set \<Rightarrow> string \<Rightarrow> string option action" where
  "commit_from l new_blobs_by_path silos parent w =
     and_then repo (\<lambda>_ w1.
       let entries = tree_entries new_blobs_by_path;
           w2 = send (CreateTree entries parent) w1;
           new_tree = tree_sha (the_host w2) entries parent
       in and_then repo (\<lambda>_ w3.
            let message = ''(syndicate): adding IDs for '' @ format_set l silos
            in (case new_tree of
                  None \<Rightarrow> (Inl AttributeError, w3)
                | Some tree \<Rightarrow>
                    let w4 = send (CreateCommit message tree [parent]) w3
                    in (case commit_sha (the_host w4) message tree [parent] of
                          None \<Rightarrow> (Inl AttributeError, w4)
                        | Some new_commit \<Rightarrow> update_reference new_commit w4))) w2) w"

text \<open>
  Reading a local name. A name that a function assigns anywhere in its body is local
  to the whole body; reading it before its first assignment raises
  \<^verbatim>\<open>UnboundLocalError\<close>, whatever the module defines under the same name.
\<close>

definition load_local :: "string \<Rightarrow> 'a option \<Rightarrow> error + 'a" where
  "load_local name slot = (case slot of None \<Rightarrow> Inl (UnboundLocalError name) | Some v \<Rightarrow> Inr v)"

text \<open>
  \<^verbatim>\<open>commit_updated_posts\<close>, lines 192 to 262. Line 223 is
  \<^verbatim>\<open>parent_sha = parent_sha()\<close>: the assignment makes \<^verbatim>\<open>parent_sha\<close> a local name of this
  function, nothing has been assigned to it when the right-hand side is evaluated, and
  the callee is read from that empty local slot.
\<close>

definition commit_updated_posts :: "lib \<Rightarrow> (string, post) dict \<Rightarrow> string set \<Rightarrow> string option action" where
  "commit_updated_posts l fronted_posts_by_path silos w =
     (if fronted_posts_by_path = []
        then (Inr None, print_line (Log ''All good: already marked.'') w)
      else if \<not> env_true w ''GITHUB_TOKEN''
        then (Inl (AssertionError ''missing GITHUB_TOKEN''), w)
      else if \<not> env_true w ''GITHUB_REPOSITORY''
        then (Inl (AssertionError ''missing GITHUB_REPOSITORY''), w)
      else if \<not> env_true w ''GITHUB_REF''
        then (Inl (AssertionError ''missing GITHUB_REF''), w)
      else and_then (create_blobs l fronted_posts_by_path []) (\<lambda>new_blobs_by_path w1.
             case load_local ''parent_sha'' (None :: (world \<Rightarrow> error + string) option) of
               Inl e \<Rightarrow> (Inl e, w1)
             | Inr callee \<Rightarrow>
                 (case callee w1 of
                    Inl e \<Rightarrow> (Inl e, w1)
                  | Inr sha \<Rightarrow> commit_from l new_blobs_by_path silos sha w1)) w)"

text \<open>\<^verbatim>\<open>mark_syndicated_posts\<close>, lines 153 to 190.\<close>

definition mark_syndicated_posts ::
  "lib \<Rightarrow> (string \<times> (string \<times> pyval) list) list \<Rightarrow> (string, post) dict \<Rightarrow> string option action" where
  "mark_syndicated_posts l syndicate_ids_by_path fronted_posts_by_path w =
     (if syndicate_ids_by_path = [] then (Inl (AssertionError ''missing syndicate IDs''), w)
      else if fronted_posts_by_path = [] then (Inl (AssertionError ''missing fronted posts''), w)
      else (case mark_loop l fronted_posts_by_path syndicate_ids_by_path ([], {}) of
              Inl e \<Rightarrow> (Inl e, w)
            | Inr (updated_fronted_posts_by_path, silos_included) \<Rightarrow>
                commit_updated_posts l updated_fronted_posts_by_path silos_included w))"

text \<open>
  The Commit Cursor. A \<^verbatim>\<open>set-env\<close> line does not change the environment of the process
  that prints it: the workflow runner sets the variable for the steps of the job that
  follow. \<open>job_environ\<close> is the environment the next step starts with, and the cursor
  is what \<^verbatim>\<open>parent_sha()\<close> reads there.
\<close>

fun apply_line :: "line \<Rightarrow> (string \<rightharpoonup> string) \<Rightarrow> (string \<rightharpoonup> string)" where
  "apply_line (SetEnv k v) env = env(k \<mapsto> v)"
| "apply_line _ env = env"

definition job_environ :: "world \<Rightarrow> (string \<rightharpoonup> string)" where
  "job_environ w = fold apply_line (stdout w) (environ w)"

definition commit_cursor :: "world \<Rightarrow> string option" where
  "commit_cursor w =
     (case job_environ w ''SYNDICATE_SHA'' of
        None \<Rightarrow> job_environ w ''GITHUB_SHA''
      | Some s \<Rightarrow> Some s)"

section \<open>The silo client\<close>

text \<open>
  Modelled from the spec: the silo client's \<^verbatim>\<open>fetch\<close> for a given id. Its module
  (\<^verbatim>\<open>syndicate/silos/dev.py\<close>) is not among the sources, only its tests are. The spec:
  with an id, \<^verbatim>\<open>fetch\<close> paginates through the listing of the account's posts until a
  post with that id is found, and returns it, or returns "not found" when the listing
  is exhausted; it fails with an \<^verbatim>\<open>AuthError\<close> if no credential is configured; and the
  pagination ends on the first page that returns no result. The tests number the pages
  from 1. A silo that never returns an empty page and never lists the id keeps the
  client asking: the search is a partial function, \<open>None\<close> when it does not return.
  Its result is what was found and the number of the last page requested.
\<close>

record article =
  article_id :: int
  article_title :: string

datatype silo_error = AuthError

partial_function (option) search_pages ::
  "(nat \<Rightarrow> article list) \<Rightarrow> int \<Rightarrow> nat \<Rightarrow> (article option \<times> nat) option" where
  "search_pages listing post_id page =
     (let results = listing page
      in if results = [] then Some (None, page)
         else (case find (\<lambda>a. article_id a = post_id) results of
                 Some a \<Rightarrow> Some (Some a, page)
               | None \<Rightarrow> search_pages listing post_id (Suc page)))"

definition fetch ::
  "string option \<Rightarrow> (nat \<Rightarrow> article list) \<Rightarrow> int \<Rightarrow> (silo_error + article option) option" where
  "fetch api_key listing post_id =
     (if api_key = None \<or> api_key = Some [] then Some (Inl AuthError)
      else map_option (\<lambda>(found, page). Inr found) (search_pages listing post_id 1))"

section \<open>A concrete setting for evaluation\<close>

text \<open>
  A stand-in for the libraries, used only to run the definitions on concrete inputs:
  every byte string decodes to itself, a document without a frontmatter block parses to
  a post with an empty header, serialising gives the body back, lowering acts on the
  letters of ASCII, and a set prints as nothing.
\<close>

definition lower_char :: "char \<Rightarrow> char" where
  "lower_char c =
     (let n = (of_char c :: nat) in if 65 \<le> n \<and> n \<le> 90 then char_of (n + 32) else c)"

definition lower :: "string \<Rightarrow> string" where
  "lower s = map lower_char s"

definition lib0 :: lib where
  "lib0 = \<lparr>decode_utf8 = Inr,
           loads = (\<lambda>s. Inr \<lparr>metadata = [], content = s, handler = None\<rparr>),
           dumps = content,
           str_lower = lower,
           format_set = (\<lambda>S. [])\<rparr>"

text \<open>Posts for evaluation: \<open>post1\<close> carries an empty \<^verbatim>\<open>dev_syndicate_id\<close>, the others a real one.\<close>

definition post1 :: post where
  "post1 = \<lparr>metadata = [(''title'', VStr ''Hello''), (''dev_syndicate_id'', VNone)],
            content = ''body'', handler = None\<rparr>"

definition post2 :: post where
  "post2 = \<lparr>metadata = [(''title'', VStr ''Hello''), (''medium_syndicate_id'', VInt 7)],
            content = ''body'', handler = None\<rparr>"

definition post1m :: post where
  "post1m = \<lparr>metadata = [(''title'', VStr ''Hello''), (''dev_syndicate_id'', VInt 42)],
             content = ''body'', handler = None\<rparr>"

definition post2m :: post where
  "post2m = \<lparr>metadata = [(''title'', VStr ''Hello''), (''medium_syndicate_id'', VInt 7),
                          (''dev_syndicate_id'', VInt 42)],
            content = ''body'', handler = None\<rparr>"

definition post3 :: post where
  "post3 = \<lparr>metadata = [(''title'', VStr ''Hi''), (''dev_syndicate_id'', VInt 7)],
            content = ''text'', handler = None\<rparr>"

definition post3m :: post where
  "post3m = \<lparr>metadata = [(''title'', VStr ''Hi''), (''dev_syndicate_id'', VInt 7),
                          (''medium_syndicate_id'', VInt 9)],
            content = ''text'', handler = None\<rparr>"

text \<open>
  A host and a process for evaluation: the triggering commit \<^verbatim>\<open>sha1\<close> touches two posts,
  one of them deleted, and a file outside the posts directory. \<open>world1\<close> is a later
  step of the job that ran \<open>world0_done\<close>.
\<close>

definition host0 :: host where
  "host0 = \<lparr>commit_files = (\<lambda>sha. if sha = ''sha1''
                 then Some [\<lparr>filename = ''posts/a.md'', status = ''modified''\<rparr>,
                            \<lparr>filename = ''posts/b.md'', status = ''deleted''\<rparr>,
                            \<lparr>filename = ''README.md'', status = ''modified''\<rparr>]
                 else None),
            file_at = (\<lambda>name ref. if name = ''posts/a.md''
                 then Some \<lparr>path = name, decoded = ''text at '' @ ref\<rparr> else None),
            blob_sha = (\<lambda>text. ''blob of '' @ text),
            tree_sha = (\<lambda>entries base. Some (''tree on '' @ base)),
            commit_sha = (\<lambda>message tree parents. Some (''commit of '' @ tree)),
            ref_response = (\<lambda>url sha. (200, ''{}''))\<rparr>"

definition world0 :: world where
  "world0 = \<lparr>environ = map_of [(''GITHUB_TOKEN'', ''secret''),
                                 (''GITHUB_REPOSITORY'', ''owner/blog''),
                                 (''GITHUB_REF'', ''refs/heads/main''),
                                 (''GITHUB_SHA'', ''sha1'')],
             repo_cached = False, stdout = [], calls = [], the_host = host0,
             refs = Map.empty\<rparr>"

definition world1 :: world where
  "world1 = world0\<lparr>environ := (environ world0)(''SYNDICATE_SHA'' \<mapsto> ''sha2'')\<rparr>"

definition world0_done :: world where
  "world0_done = world0\<lparr>stdout := [SetEnv ''SYNDICATE_SHA'' ''sha2'', Log ''Syndicate posts marked.'']\<rparr>"

text \<open>A host that refuses the reference update.\<close>

definition host_rejecting :: host where
  "host_rejecting = host0\<lparr>ref_response := (\<lambda>url sha. (422, ''{conflict}''))\<rparr>"

definition world_rejecting :: world where
  "world_rejecting = world0\<lparr>the_host := host_rejecting\<rparr>"

text \<open>A batch of one updated post, a batch of two, and the blob the host gives the first.\<close>

definition batch0 :: "(string, post) dict" where
  "batch0 = [(''posts/a.md'', post1m)]"

definition batch1 :: "(string, post) dict" where
  "batch1 = [(''posts/a.md'', post1m), (''posts/c.md'', post3m)]"

definition blobs0 :: "(string, string) dict" where
  "blobs0 = [(''posts/a.md'', ''blob of body'')]"

text \<open>The silo of the test \<^verbatim>\<open>test_fetch_request_invalid_post\<close>: one post on page 1, nothing after.\<close>

definition listing0 :: "nat \<Rightarrow> article list" where
  "listing0 page = (if page = 1 then [\<lparr>article_id = 14, article_title = ''other''\<rparr>] else [])"

section \<open>Facts about ordered dictionaries\<close>

lemma dict_keys_simps:
  "dict_keys [] = []" "dict_keys ((k, v) # d) = k # dict_keys d"
  by (simp_all add: dict_keys_def)

lemma dict_get_dict_set:
  "dict_get (dict_set k v d) k' = (if k' = k then Some v else dict_get d k')"
  by (induction d) (auto simp: dict_get_def)

lemma dict_keys_dict_set:
  "dict_keys (dict_set k v d) =
     (if k \<in> set (dict_keys d) then dict_keys d else dict_keys d @ [k])"
  by (induction d) (force simp: dict_keys_def)+

lemma set_dict_keys_dict_set:
  "set (dict_keys (dict_set k v d)) = insert k (set (dict_keys d))"
  by (auto simp: dict_keys_dict_set)

lemma dict_get_dict_update_other:
  "k \<notin> set (dict_keys b) \<Longrightarrow> dict_get (dict_update a b) k = dict_get a k"
  unfolding dict_update_def
  by (induction b arbitrary: a) (auto simp: dict_get_dict_set dict_keys_def)

lemma dict_keys_dict_update:
  "\<exists>ks. dict_keys (dict_update a b) = dict_keys a @ ks
        \<and> set ks \<subseteq> set (dict_keys b) - set (dict_keys a)"
  unfolding dict_update_def
proof (induction b arbitrary: a)
  case Nil
  then show ?case by simp
next
  case (Cons x b)
  obtain k v where x: "x = (k, v)" by (cases x)
  from Cons.IH [of "dict_set k v a"] obtain ks where
    ks: "dict_keys (fold (\<lambda>(k, v). dict_set k v) b (dict_set k v a))
           = dict_keys (dict_set k v a) @ ks"
      "set ks \<subseteq> set (dict_keys b) - set (dict_keys (dict_set k v a))" by blast
  show ?case
  proof (cases "k \<in> set (dict_keys a)")
    case True
    with ks have "dict_keys (fold (\<lambda>(k, v). dict_set k v) (x # b) a) = dict_keys a @ ks"
      using x by (simp add: dict_keys_dict_set)
    moreover from ks True have "set ks \<subseteq> set (dict_keys (x # b)) - set (dict_keys a)"
      using x by (auto simp: set_dict_keys_dict_set dict_keys_simps)
    ultimately show ?thesis by blast
  next
    case False
    with ks x
    have "dict_keys (fold (\<lambda>(k, v). dict_set k v) (x # b) a) = dict_keys a @ (k # ks)"
      by (simp add: dict_keys_dict_set)
    moreover from ks False
    have "set (k # ks) \<subseteq> set (dict_keys (x # b)) - set (dict_keys a)"
      using x by (auto simp: set_dict_keys_dict_set dict_keys_simps)
    ultimately show ?thesis by blast
  qed
qed

lemma dict_get_filter:
  "dict_get (filter (\<lambda>(k, v). P k) d) k = (if P k then dict_get d k else None)"
  by (induction d) (auto simp: dict_get_def)

lemma dict_keys_filter:
  "dict_keys (filter (\<lambda>(k, v). P k) d) = filter P (dict_keys d)"
  by (induction d) (auto simp: dict_keys_def)

lemma in_dict_keys_iff: "k \<in> set (dict_keys d) \<longleftrightarrow> dict_get d k \<noteq> None"
  by (induction d) (auto simp: dict_keys_def dict_get_def)

lemma distinct_dict_set:
  "distinct (dict_keys d) \<Longrightarrow> distinct (dict_keys (dict_set k v d))"
  by (simp add: dict_keys_dict_set)

lemma dict_get_dict_update:
  "distinct (dict_keys b) \<Longrightarrow>
   dict_get (dict_update a b) k = (case dict_get b k of None \<Rightarrow> dict_get a k | Some v \<Rightarrow> Some v)"
  unfolding dict_update_def
proof (induction b arbitrary: a)
  case Nil
  then show ?case by (simp add: dict_get_def)
next
  case (Cons x b)
  obtain k' v' where x: "x = (k', v')" by (cases x)
  from Cons.prems x have d: "distinct (dict_keys b)" and fresh: "k' \<notin> set (dict_keys b)"
    by (simp_all add: dict_keys_simps)
  from fresh have none: "dict_get b k' = None"
    by (simp add: in_dict_keys_iff)
  have step: "fold (\<lambda>(k, v). dict_set k v) (x # b) a
      = fold (\<lambda>(k, v). dict_set k v) b (dict_set k' v' a)"
    using x by simp
  have ih: "dict_get (fold (\<lambda>(k, v). dict_set k v) b (dict_set k' v' a)) k
      = (case dict_get b k of None \<Rightarrow> dict_get (dict_set k' v' a) k | Some v \<Rightarrow> Some v)"
    by (rule Cons.IH [OF d])
  show ?case
  proof (cases "k = k'")
    case True
    with none x show ?thesis
      unfolding step ih by (simp add: dict_get_dict_set) (simp add: dict_get_def)
  next
    case False
    have "dict_get (x # b) k = dict_get b k"
      using False x by (simp add: dict_get_def)
    with False show ?thesis
      unfolding step ih by (simp add: dict_get_dict_set cong: option.case_cong)
  qed
qed

lemma dict_keys_dict_update_distinct:
  "distinct (dict_keys b) \<Longrightarrow>
   dict_keys (dict_update a b)
     = dict_keys a @ filter (\<lambda>k. k \<notin> set (dict_keys a)) (dict_keys b)"
  unfolding dict_update_def
proof (induction b arbitrary: a)
  case Nil
  then show ?case by (simp add: dict_keys_simps)
next
  case (Cons x b)
  obtain k' v' where x: "x = (k', v')" by (cases x)
  from Cons.prems x have d: "distinct (dict_keys b)" and fresh: "k' \<notin> set (dict_keys b)"
    by (simp_all add: dict_keys_simps)
  have f: "filter (\<lambda>k. k \<noteq> k' \<and> k \<notin> set (dict_keys a)) (dict_keys b)
      = filter (\<lambda>k. k \<notin> set (dict_keys a)) (dict_keys b)"
    using fresh by (intro filter_cong) auto
  show ?case
    using Cons.IH [OF d, of "dict_set k' v' a"] x f
    by (auto simp: dict_keys_dict_set set_dict_keys_dict_set dict_keys_simps)
qed

section \<open>Facts about the merge\<close>

lemma syndicate_key_not_content: "syndicate_key_for l s \<noteq> ''content''"
  by (auto simp: syndicate_key_for_def dest: arg_cong [where f = length])

lemma syndicate_key_not_handler: "syndicate_key_for l s \<noteq> ''handler''"
  by (auto simp: syndicate_key_for_def dest: arg_cong [where f = length])

text \<open>Every key the inner loop adds is the key of a silo whose record was false.\<close>

lemma new_ids_keys:
  "new_syndicate_ids l fp ids (new0, silos0) = Inr (new, silos) \<Longrightarrow>
   k \<in> set (dict_keys new) \<Longrightarrow>
   k \<in> set (dict_keys new0) \<or>
   (\<exists>silo \<in> fst ` set ids. k = syndicate_key_for l silo \<and> \<not> truthy (post_get fp k))"
proof (induction ids arbitrary: new0 silos0)
  case Nil
  then show ?case by simp
next
  case (Cons x ids)
  obtain silo sid where x: "x = (silo, sid)" by (cases x)
  show ?case
    using Cons.prems Cons.IH x
    by (fastforce simp: syndicate_id_for_def fronted_def dict_keys_dict_set
         split: sum.splits if_splits)
qed

lemma new_ids_keys_syndicate:
  assumes "new_syndicate_ids l fp ids ([], silos) = Inr (new, silos')"
  shows "set (dict_keys new) \<subseteq> syndicate_key_for l ` fst ` set ids"
proof
  fix k assume "k \<in> set (dict_keys new)"
  from new_ids_keys [OF assms this] show "k \<in> syndicate_key_for l ` fst ` set ids"
    by (auto simp: dict_keys_simps)
qed

lemma new_ids_all_marked:
  "\<forall>(silo, sid) \<in> set ids. truthy (post_get fp (syndicate_key_for l silo)) \<Longrightarrow>
   new_syndicate_ids l fp ids acc = Inr r \<Longrightarrow> r = acc"
proof (induction ids arbitrary: acc)
  case Nil
  then show ?case by simp
next
  case (Cons x ids)
  obtain silo sid where x: "x = (silo, sid)" by (cases x)
  obtain new silos where acc: "acc = (new, silos)" by (cases acc)
  show ?case
    using Cons.prems Cons.IH [of acc] x acc
    by (auto simp: syndicate_id_for_def fronted_def split: sum.splits if_splits)
qed

lemma mark_post_all_marked:
  assumes all: "\<forall>(silo, sid) \<in> set ids. truthy (post_get fp (syndicate_key_for l silo))"
    and mp: "mark_post l fp ids silos = Inr (r, silos')"
  shows "r = None \<and> silos' = silos"
proof -
  from mp obtain new s1 where n: "new_syndicate_ids l fp ids ([], silos) = Inr (new, s1)"
    by (auto simp: mark_post_def split: sum.splits)
  from new_ids_all_marked [OF all n] have "new = []" "s1 = silos" by simp_all
  with mp n show ?thesis by (simp add: mark_post_def)
qed

lemma mark_loop_excludes:
  "mark_loop l posts ids_by_path (updated0, silos0) = Inr (updated, silos) \<Longrightarrow>
   dict_get posts P = Some fp \<Longrightarrow>
   P \<notin> set (dict_keys updated0) \<Longrightarrow>
   \<forall>(p, ids) \<in> set ids_by_path.
      p = P \<longrightarrow> (\<forall>(silo, sid) \<in> set ids. truthy (post_get fp (syndicate_key_for l silo))) \<Longrightarrow>
   P \<notin> set (dict_keys updated)"
proof (induction ids_by_path arbitrary: updated0 silos0)
  case Nil
  then show ?case by simp
next
  case (Cons x rest)
  obtain p ids where x: "x = (p, ids)" by (cases x)
  from Cons.prems(1) x obtain fq where fq: "dict_get posts p = Some fq"
    by (auto split: option.splits)
  from Cons.prems(1) x fq obtain r silos1 where
    mp: "mark_post l fq ids silos0 = Inr (r, silos1)"
    by (auto split: sum.splits)
  have rest: "\<forall>(p, ids) \<in> set rest.
      p = P \<longrightarrow> (\<forall>(silo, sid) \<in> set ids. truthy (post_get fp (syndicate_key_for l silo)))"
    using Cons.prems(4) by auto
  show ?case
  proof (cases r)
    case None
    with Cons.prems(1) x fq mp
    have "mark_loop l posts rest (updated0, silos1) = Inr (updated, silos)" by simp
    from Cons.IH [OF this Cons.prems(2) Cons.prems(3) rest] show ?thesis .
  next
    case (Some up)
    with Cons.prems(1) x fq mp
    have loop: "mark_loop l posts rest (dict_set p up updated0, silos1) = Inr (updated, silos)"
      by simp
    have "p \<noteq> P"
    proof
      assume "p = P"
      with fq Cons.prems(2) have "fq = fp" by simp
      moreover from \<open>p = P\<close> x Cons.prems(4)
      have "\<forall>(silo, sid) \<in> set ids. truthy (post_get fp (syndicate_key_for l silo))"
        by auto
      ultimately show False
        using mark_post_all_marked [of ids fp l silos0 r silos1] mp Some by simp
    qed
    with Cons.prems(3) have "P \<notin> set (dict_keys (dict_set p up updated0))"
      by (simp add: set_dict_keys_dict_set)
    from Cons.IH [OF loop Cons.prems(2) this rest] show ?thesis .
  qed
qed

lemma mark_post_new:
  "mark_post l fp ids silos = Inr (Some up, silos') \<Longrightarrow>
   \<exists>new. new_syndicate_ids l fp ids ([], silos) = Inr (new, silos') \<and> new \<noteq> [] \<and>
      Post_init (dict_update (to_dict fp) new) = Inr up"
  by (auto simp: mark_post_def split: sum.splits if_splits prod.splits)

lemma Post_init_Inr:
  "Post_init d = Inr up \<Longrightarrow>
   \<exists>c. dict_get d ''content'' = Some c \<and> content up = py_str c \<and>
     metadata up = filter (\<lambda>(k, v). k \<noteq> ''content'' \<and> k \<noteq> ''handler'') d"
  by (auto simp: Post_init_def split: if_splits option.splits)

lemma merged_get:
  assumes "mark_post l fp ids silos = Inr (Some up, silos')"
    and "k \<noteq> ''content''" and "k \<noteq> ''handler''"
    and "truthy (post_get fp k) \<or> k \<notin> syndicate_key_for l ` fst ` set ids"
  shows "dict_get (metadata up) k = dict_get (metadata fp) k"
proof -
  from mark_post_new [OF assms(1)] obtain new where
    new: "new_syndicate_ids l fp ids ([], silos) = Inr (new, silos')"
    and init: "Post_init (dict_update (to_dict fp) new) = Inr up" by blast
  have "k \<notin> set (dict_keys new)"
  proof
    assume "k \<in> set (dict_keys new)"
    from new_ids_keys [OF new this] assms(4) show False
      by (auto simp: dict_keys_simps)
  qed
  then have "dict_get (dict_update (to_dict fp) new) k = dict_get (to_dict fp) k"
    by (rule dict_get_dict_update_other)
  also have "\<dots> = dict_get (metadata fp) k"
    using assms(2) by (simp add: to_dict_def dict_get_dict_set)
  finally have "dict_get (dict_update (to_dict fp) new) k = dict_get (metadata fp) k" .
  moreover from Post_init_Inr [OF init]
  have "metadata up = filter (\<lambda>(k, v). k \<noteq> ''content'' \<and> k \<noteq> ''handler'')
          (dict_update (to_dict fp) new)"
    by blast
  ultimately show ?thesis
    using assms(2,3) by (simp add: dict_get_filter)
qed

lemma merged_content:
  assumes "mark_post l fp ids silos = Inr (Some up, silos')"
  shows "content up = content fp"
proof -
  from mark_post_new [OF assms] obtain new where
    new: "new_syndicate_ids l fp ids ([], silos) = Inr (new, silos')"
    and init: "Post_init (dict_update (to_dict fp) new) = Inr up" by blast
  have "''content'' \<notin> set (dict_keys new)"
    using new_ids_keys_syndicate [OF new] syndicate_key_not_content by fastforce
  then have "dict_get (dict_update (to_dict fp) new) ''content'' = Some (VStr (content fp))"
    by (simp add: dict_get_dict_update_other to_dict_def dict_get_dict_set)
  with Post_init_Inr [OF init] show ?thesis by auto
qed

lemma merged_keys:
  assumes "mark_post l fp ids silos = Inr (Some up, silos')"
    and "''content'' \<notin> set (dict_keys (metadata fp))"
    and "''handler'' \<notin> set (dict_keys (metadata fp))"
  shows "\<exists>ks. dict_keys (metadata up) = dict_keys (metadata fp) @ ks
           \<and> set ks \<inter> set (dict_keys (metadata fp)) = {}
           \<and> set ks \<subseteq> syndicate_key_for l ` fst ` set ids"
proof -
  from mark_post_new [OF assms(1)] obtain new where
    new: "new_syndicate_ids l fp ids ([], silos) = Inr (new, silos')"
    and init: "Post_init (dict_update (to_dict fp) new) = Inr up" by blast
  let ?md = "dict_keys (metadata fp)"
  have td: "dict_keys (to_dict fp) = ?md @ [''content'']"
    using assms(2) by (simp add: to_dict_def dict_keys_dict_set)
  from dict_keys_dict_update [of "to_dict fp" new] obtain ks where
    ks: "dict_keys (dict_update (to_dict fp) new) = dict_keys (to_dict fp) @ ks"
    and sub: "set ks \<subseteq> set (dict_keys new) - set (dict_keys (to_dict fp))" by blast
  have synd: "set ks \<subseteq> syndicate_key_for l ` fst ` set ids"
    using sub new_ids_keys_syndicate [OF new] by blast
  have keep: "filter (\<lambda>k. k \<noteq> ''content'' \<and> k \<noteq> ''handler'') ks = ks"
    using synd syndicate_key_not_content syndicate_key_not_handler
    by (fastforce simp: filter_id_conv)
  have keep_md: "filter (\<lambda>k. k \<noteq> ''content'' \<and> k \<noteq> ''handler'') ?md = ?md"
    using assms(2,3) by (auto simp: filter_id_conv)
  from Post_init_Inr [OF init]
  have "metadata up = filter (\<lambda>(k, v). k \<noteq> ''content'' \<and> k \<noteq> ''handler'')
          (dict_update (to_dict fp) new)" by blast
  then have "dict_keys (metadata up) =
      filter (\<lambda>k. k \<noteq> ''content'' \<and> k \<noteq> ''handler'')
        (dict_keys (dict_update (to_dict fp) new))"
    by (simp add: dict_keys_filter)
  also have "\<dots> = ?md @ ks"
    by (simp add: ks td keep keep_md)
  finally have "dict_keys (metadata up) = ?md @ ks" .
  moreover have "set ks \<inter> set ?md = {}"
    using sub td by auto
  ultimately show ?thesis using synd by blast
qed

text \<open>What the inner loop leaves under each key.\<close>

lemma new_ids_value:
  "new_syndicate_ids l fp ids (new0, silos0) = Inr (new, silos) \<Longrightarrow>
   dict_get new k =
     (if \<not> truthy (post_get fp k) \<and> k \<in> syndicate_key_for l ` fst ` set ids
      then map_of (rev (map (\<lambda>(silo, sid). (syndicate_key_for l silo, sid)) ids)) k
      else dict_get new0 k)"
proof (induction ids arbitrary: new0 silos0)
  case Nil
  then show ?case by simp
next
  case (Cons x ids)
  obtain silo sid where x: "x = (silo, sid)" by (cases x)
  let ?kv = "map (\<lambda>(silo, sid). (syndicate_key_for l silo, sid)) ids"
  have later: "k \<in> syndicate_key_for l ` fst ` set ids \<longleftrightarrow> map_of (rev ?kv) k \<noteq> None"
    by (force simp: map_of_eq_None_iff image_iff)
  show ?case
  proof (cases "truthy (post_get fp (syndicate_key_for l silo))")
    case True
    with Cons.prems x have "new_syndicate_ids l fp ids (new0, silos0) = Inr (new, silos)"
      by (auto simp: syndicate_id_for_def fronted_def split: if_splits)
    from Cons.IH [OF this] True x later show ?thesis
      by (auto simp: map_of_append map_add_def split: option.splits)
  next
    case False
    with Cons.prems x have "new_syndicate_ids l fp ids
        (dict_set (syndicate_key_for l silo) sid new0, insert silo silos0) = Inr (new, silos)"
      by (auto simp: syndicate_id_for_def fronted_def split: if_splits)
    from Cons.IH [OF this] False x later show ?thesis
      by (auto simp: map_of_append map_add_def dict_get_dict_set split: option.splits)
  qed
qed

lemma new_ids_distinct:
  "new_syndicate_ids l fp ids (new0, silos0) = Inr (new, silos) \<Longrightarrow>
   distinct (dict_keys new0) \<Longrightarrow> distinct (dict_keys new)"
proof (induction ids arbitrary: new0 silos0)
  case Nil
  then show ?case by simp
next
  case (Cons x ids)
  obtain silo sid where x: "x = (silo, sid)" by (cases x)
  show ?case
    using Cons.prems Cons.IH x distinct_dict_set
    by (fastforce simp: syndicate_id_for_def fronted_def split: sum.splits if_splits)
qed

lemma new_ids_key_set:
  assumes "new_syndicate_ids l fp ids ([], silos) = Inr (new, silos')"
  shows "set (dict_keys new)
           = {k \<in> syndicate_key_for l ` fst ` set ids. \<not> truthy (post_get fp k)}"
proof -
  have later: "\<And>k. k \<in> syndicate_key_for l ` fst ` set ids \<longleftrightarrow>
      map_of (rev (map (\<lambda>(silo, sid). (syndicate_key_for l silo, sid)) ids)) k \<noteq> None"
    by (force simp: map_of_eq_None_iff image_iff)
  show ?thesis
    using new_ids_value [OF assms] later
    by (auto simp: in_dict_keys_iff dict_get_def split: if_splits)
qed

lemma merged_value:
  assumes "mark_post l fp ids silos = Inr (Some up, silos')"
    and "k \<in> syndicate_key_for l ` fst ` set ids"
    and "\<not> truthy (post_get fp k)"
  shows "dict_get (metadata up) k
           = map_of (rev (map (\<lambda>(silo, sid). (syndicate_key_for l silo, sid)) ids)) k"
proof -
  from mark_post_new [OF assms(1)] obtain new where
    new: "new_syndicate_ids l fp ids ([], silos) = Inr (new, silos')"
    and init: "Post_init (dict_update (to_dict fp) new) = Inr up" by blast
  have d: "distinct (dict_keys new)"
    using new_ids_distinct [OF new] by (simp add: dict_keys_simps)
  have v: "dict_get new k
      = map_of (rev (map (\<lambda>(silo, sid). (syndicate_key_for l silo, sid)) ids)) k"
    using new_ids_value [OF new, of k] assms(2,3) by simp
  have "k \<in> set (dict_keys new)"
    using new_ids_key_set [OF new] assms(2,3) by simp
  then obtain x where x: "dict_get new k = Some x"
    by (auto simp: in_dict_keys_iff)
  have "dict_get (dict_update (to_dict fp) new) k = Some x"
    using dict_get_dict_update [OF d, of "to_dict fp" k] x by simp
  moreover have "k \<noteq> ''content''" "k \<noteq> ''handler''"
    using assms(2) syndicate_key_not_content syndicate_key_not_handler by auto
  moreover from Post_init_Inr [OF init]
  have "metadata up = filter (\<lambda>(k, v). k \<noteq> ''content'' \<and> k \<noteq> ''handler'')
          (dict_update (to_dict fp) new)"
    by blast
  ultimately have "dict_get (metadata up) k = Some x"
    by (simp add: dict_get_filter)
  with x v show ?thesis by simp
qed

lemma merged_keys_exact:
  assumes "mark_post l fp ids silos = Inr (Some up, silos')"
    and "''content'' \<notin> set (dict_keys (metadata fp))"
    and "''handler'' \<notin> set (dict_keys (metadata fp))"
  shows "\<exists>ks. dict_keys (metadata up) = dict_keys (metadata fp) @ ks
           \<and> distinct ks
           \<and> set ks = syndicate_key_for l ` fst ` set ids - set (dict_keys (metadata fp))"
proof -
  from mark_post_new [OF assms(1)] obtain new where
    new: "new_syndicate_ids l fp ids ([], silos) = Inr (new, silos')"
    and init: "Post_init (dict_update (to_dict fp) new) = Inr up" by blast
  let ?md = "dict_keys (metadata fp)"
  let ?ks = "filter (\<lambda>k. k \<notin> set ?md) (dict_keys new)"
  have d: "distinct (dict_keys new)"
    using new_ids_distinct [OF new] by (simp add: dict_keys_simps)
  have td: "dict_keys (to_dict fp) = ?md @ [''content'']"
    using assms(2) by (simp add: to_dict_def dict_keys_dict_set)
  have synd: "set (dict_keys new) \<subseteq> syndicate_key_for l ` fst ` set ids"
    by (rule new_ids_keys_syndicate [OF new])
  have nc: "\<forall>k \<in> set (dict_keys new). k \<noteq> ''content'' \<and> k \<noteq> ''handler''"
    using synd syndicate_key_not_content syndicate_key_not_handler by fastforce
  have f1: "filter (\<lambda>k. k \<notin> set (dict_keys (to_dict fp))) (dict_keys new) = ?ks"
    using nc by (intro filter_cong) (auto simp: td)
  have upd: "dict_keys (dict_update (to_dict fp) new) = ?md @ [''content''] @ ?ks"
    unfolding dict_keys_dict_update_distinct [OF d, of "to_dict fp"] f1
    by (simp add: td)
  have keep: "filter (\<lambda>k. k \<notin> set ?md \<and> k \<noteq> ''content'' \<and> k \<noteq> ''handler'')
      (dict_keys new) = ?ks"
    using nc by (intro filter_cong) auto
  have keep_md: "filter (\<lambda>k. k \<noteq> ''content'' \<and> k \<noteq> ''handler'') ?md = ?md"
    using assms(2,3) by (auto simp: filter_id_conv)
  from Post_init_Inr [OF init]
  have "metadata up = filter (\<lambda>(k, v). k \<noteq> ''content'' \<and> k \<noteq> ''handler'')
          (dict_update (to_dict fp) new)" by blast
  then have "dict_keys (metadata up) =
      filter (\<lambda>k. k \<noteq> ''content'' \<and> k \<noteq> ''handler'')
        (dict_keys (dict_update (to_dict fp) new))"
    by (simp add: dict_keys_filter)
  also have "\<dots> = ?md @ ?ks"
    by (simp add: upd keep keep_md)
  finally have 1: "dict_keys (metadata up) = ?md @ ?ks" .
  have 2: "distinct ?ks" using d by simp
  have absent: "\<And>k. k \<notin> set ?md \<Longrightarrow> \<not> truthy (post_get fp k)"
    by (simp add: post_get_def in_dict_keys_iff)
  have 3: "set ?ks = syndicate_key_for l ` fst ` set ids - set ?md"
    using new_ids_key_set [OF new] absent by auto
  from 1 2 3 show ?thesis by blast
qed

section \<open>Facts about the process and the host\<close>

lemma repo_ok:
  "repo w = (Inr u, w1) \<Longrightarrow>
     repo_cached w1 \<and> environ w1 = environ w \<and> the_host w1 = the_host w
     \<and> stdout w1 = stdout w \<and> refs w1 = refs w"
  by (auto simp: repo_def send_def split: if_splits list.splits)

lemma repo_cached_id: "repo_cached w \<Longrightarrow> repo w = (Inr (), w)"
  by (simp add: repo_def)

lemma send_simps:
  "environ (send c w) = environ w" "the_host (send c w) = the_host w"
  "stdout (send c w) = stdout w" "refs (send c w) = refs w"
  "repo_cached (send c w) = repo_cached w" "calls (send c w) = calls w @ [c]"
  by (simp_all add: send_def)

lemma env_true_send: "env_true (send c w) k = env_true w k"
  by (simp add: env_true_def send_simps)

lemma getenv_send: "getenv (send c w) k = getenv w k"
  by (simp add: getenv_def send_simps)

lemma parent_sha_environ: "environ w' = environ w \<Longrightarrow> parent_sha w' = parent_sha w"
  by (simp add: parent_sha_def env_true_def getenv_def split: option.splits)

lemma file_contents_cached:
  assumes "repo_cached w" "env_true w ''GITHUB_SHA''"
  shows "file_contents name w = (Inr (fetched w name), send (GetFileContents name (known_commit w)) w)"
  using assms
  by (simp add: file_contents_def and_then_def repo_cached_id parent_sha_def Let_def
      fetched_def known_commit_def send_simps)

lemma fetch_posts_cached:
  assumes "repo_cached w" "env_true w ''GITHUB_SHA''"
  shows "fetch_posts posts w =
     (Inr (map (\<lambda>f. fetched w (filename f)) (filter (\<lambda>f. status f \<noteq> ''deleted'') posts)),
      w\<lparr>calls := calls w @ map (\<lambda>f. GetFileContents (filename f) (known_commit w))
                    (filter (\<lambda>f. status f \<noteq> ''deleted'') posts)\<rparr>)"
  using assms
proof (induction posts arbitrary: w)
  case Nil
  then show ?case by simp
next
  case (Cons p posts)
  show ?case
  proof (cases "status p = ''deleted''")
    case True
    with Cons show ?thesis by simp
  next
    case False
    let ?w2 = "send (GetFileContents (filename p) (known_commit w)) w"
    have c: "repo_cached ?w2" "env_true ?w2 ''GITHUB_SHA''"
      using Cons.prems by (simp_all add: send_simps env_true_send)
    have same: "known_commit ?w2 = known_commit w" "\<And>n. fetched ?w2 n = fetched w n"
      by (simp_all add: known_commit_def fetched_def send_simps getenv_send split: option.splits)
    from Cons.IH [OF c] False Cons.prems show ?thesis
      by (simp add: file_contents_cached and_then_def same) (simp add: send_def)
  qed
qed

lemma repo_fst_ok:
  assumes "fst (repo w) = Inr ()"
  shows "repo_cached (snd (repo w))" "environ (snd (repo w)) = environ w"
    "the_host (snd (repo w)) = the_host w" "stdout (snd (repo w)) = stdout w"
    "refs (snd (repo w)) = refs w" "repo w = (Inr (), snd (repo w))"
  using assms repo_ok [of w "()" "snd (repo w)"]
  by (cases "repo w"; simp)+

section \<open>Facts about the commit protocol\<close>

lemma print_line_simps:
  "environ (print_line ln w) = environ w" "the_host (print_line ln w) = the_host w"
  "stdout (print_line ln w) = stdout w @ [ln]" "refs (print_line ln w) = refs w"
  "repo_cached (print_line ln w) = repo_cached w" "calls (print_line ln w) = calls w"
  by (simp_all add: print_line_def)

lemma job_environ_print:
  "job_environ (print_line ln w) = apply_line ln (job_environ w)"
  by (simp add: job_environ_def print_line_simps)

lemma job_environ_cong:
  "environ w' = environ w \<Longrightarrow> stdout w' = stdout w \<Longrightarrow> job_environ w' = job_environ w"
  by (simp add: job_environ_def)

lemma commit_cursor_cong:
  "environ w' = environ w \<Longrightarrow> stdout w' = stdout w \<Longrightarrow> commit_cursor w' = commit_cursor w"
  using job_environ_cong [of w' w] by (simp add: commit_cursor_def cong: option.case_cong)

lemma repo_keeps:
  "environ (snd (repo w)) = environ w" "the_host (snd (repo w)) = the_host w"
  "stdout (snd (repo w)) = stdout w" "refs (snd (repo w)) = refs w"
  by (auto simp: repo_def send_def split: if_splits list.splits)

lemma create_blobs_keeps:
  "environ (snd (create_blobs l batch acc w)) = environ w
   \<and> the_host (snd (create_blobs l batch acc w)) = the_host w
   \<and> stdout (snd (create_blobs l batch acc w)) = stdout w
   \<and> refs (snd (create_blobs l batch acc w)) = refs w"
proof (induction batch arbitrary: acc w)
  case Nil
  then show ?case by simp
next
  case (Cons x batch)
  obtain p fp where x: "x = (p, fp)" by (cases x)
  show ?case
  proof (cases "repo w")
    case (Pair r w1)
    note k = repo_keeps [of w]
    show ?thesis
    proof (cases r)
      case (Inl e)
      with Pair x k show ?thesis by (simp add: and_then_def)
    next
      case (Inr u)
      with Pair x k Cons.IH show ?thesis
        by (simp add: and_then_def Let_def send_simps)
    qed
  qed
qed

lemma commit_updated_posts_nonempty:
  assumes "batch \<noteq> []"
  shows "commit_updated_posts l batch silos w =
     (if \<not> env_true w ''GITHUB_TOKEN''
        then (Inl (AssertionError ''missing GITHUB_TOKEN''), w)
      else if \<not> env_true w ''GITHUB_REPOSITORY''
        then (Inl (AssertionError ''missing GITHUB_REPOSITORY''), w)
      else if \<not> env_true w ''GITHUB_REF''
        then (Inl (AssertionError ''missing GITHUB_REF''), w)
      else (case fst (create_blobs l batch [] w) of
              Inl e \<Rightarrow> Inl e
            | Inr new_blobs_by_path \<Rightarrow> Inl (UnboundLocalError ''parent_sha''),
            snd (create_blobs l batch [] w)))"
proof (cases "create_blobs l batch [] w")
  case (Pair r w1)
  then show ?thesis
    using assms
    by (cases r) (simp_all add: commit_updated_posts_def and_then_def load_local_def)
qed

lemma commit_updated_posts_stops:
  assumes "batch \<noteq> []"
  shows "(\<forall>body. fst (commit_updated_posts l batch silos w) \<noteq> Inr body)"
    and "refs (snd (commit_updated_posts l batch silos w)) = refs w"
    and "stdout (snd (commit_updated_posts l batch silos w)) = stdout w"
    and "environ (snd (commit_updated_posts l batch silos w)) = environ w"
  unfolding commit_updated_posts_nonempty [OF assms]
  using create_blobs_keeps [of l batch "[]" w]
  by (simp_all split: sum.splits)

lemma put_ref_simps:
  "environ (snd (put_ref url auth sha w)) = environ w"
  "the_host (snd (put_ref url auth sha w)) = the_host w"
  "stdout (snd (put_ref url auth sha w)) = stdout w"
  "calls (snd (put_ref url auth sha w)) = calls w @ [PutRef url auth sha]"
  "fst (put_ref url auth sha w) = ref_response (the_host w) url sha"
  "refs (snd (put_ref url auth sha w)) =
     (if fst (ref_response (the_host w) url sha) = 200 then (refs w)(url \<mapsto> sha) else refs w)"
  by (simp_all add: put_ref_def Let_def send_simps)

lemma commit_cursor_set:
  "commit_cursor (print_line (Log m) (print_line (SetEnv ''SYNDICATE_SHA'' c) w1)) = Some c"
  by (simp add: commit_cursor_def job_environ_print)

lemma commit_cursor_error:
  "commit_cursor (print_line (Error m) w1) = commit_cursor w1"
  by (simp add: commit_cursor_def job_environ_print cong: option.case_cong)

lemma update_reference_eq:
  "update_reference new_commit w =
      (if fst (ref_response (the_host w) (ref_url w) new_commit) = 200
       then (Inr (Some (snd (ref_response (the_host w) (ref_url w) new_commit))),
             print_line (Log ''Syndicate posts marked.'')
               (print_line (SetEnv ''SYNDICATE_SHA'' new_commit)
                  (snd (put_ref (ref_url w) (authorization w) new_commit w))))
       else (Inr None,
             print_line (Error (''Failed to mark syndicated posts: ''
                                 @ snd (ref_response (the_host w) (ref_url w) new_commit)))
               (snd (put_ref (ref_url w) (authorization w) new_commit w))))"
  by (simp add: update_reference_def case_prod_beta put_ref_simps(5))

lemma put_ref_cursor:
  "commit_cursor (snd (put_ref url auth sha w)) = commit_cursor w"
  by (rule commit_cursor_cong) (simp_all add: put_ref_simps)

lemma update_reference_ok:
  assumes "fst (ref_response (the_host w) (ref_url w) c) = 200"
  shows "fst (update_reference c w) = Inr (Some (snd (ref_response (the_host w) (ref_url w) c)))"
    and "stdout (snd (update_reference c w))
           = stdout w @ [SetEnv ''SYNDICATE_SHA'' c, Log ''Syndicate posts marked.'']"
    and "commit_cursor (snd (update_reference c w)) = Some c"
    and "refs (snd (update_reference c w)) = (refs w)(ref_url w \<mapsto> c)"
  using assms
  by (simp_all add: update_reference_eq print_line_simps commit_cursor_set put_ref_simps(3,6))

lemma update_reference_rejected:
  assumes "fst (ref_response (the_host w) (ref_url w) c) \<noteq> 200"
  shows "fst (update_reference c w) = Inr None"
    and "stdout (snd (update_reference c w))
           = stdout w @ [Error (''Failed to mark syndicated posts: ''
                                 @ snd (ref_response (the_host w) (ref_url w) c))]"
    and "commit_cursor (snd (update_reference c w)) = commit_cursor w"
    and "refs (snd (update_reference c w)) = refs w"
  using assms
  by (simp_all add: update_reference_eq print_line_simps commit_cursor_error put_ref_cursor
      put_ref_simps(3,6))

lemma update_reference_calls:
  "calls (snd (update_reference c w)) = calls w @ [PutRef (ref_url w) (authorization w) c]"
  by (simp add: update_reference_eq print_line_simps put_ref_simps(4))

text \<open>Lines 247 to 262 on their own.\<close>

lemma update_reference_outcome:
  "(fst (ref_response (the_host w) (ref_url w) new_commit) = 200 \<longrightarrow>
      fst (update_reference new_commit w)
        = Inr (Some (snd (ref_response (the_host w) (ref_url w) new_commit)))
      \<and> stdout (snd (update_reference new_commit w))
        = stdout w @ [SetEnv ''SYNDICATE_SHA'' new_commit, Log ''Syndicate posts marked.'']
      \<and> commit_cursor (snd (update_reference new_commit w)) = Some new_commit)
   \<and> (fst (ref_response (the_host w) (ref_url w) new_commit) \<noteq> 200 \<longrightarrow>
      fst (update_reference new_commit w) = Inr None
      \<and> stdout (snd (update_reference new_commit w))
        = stdout w @ [Error (''Failed to mark syndicated posts: ''
                              @ snd (ref_response (the_host w) (ref_url w) new_commit))]
      \<and> commit_cursor (snd (update_reference new_commit w)) = commit_cursor w
      \<and> refs (snd (update_reference new_commit w)) = refs w)
   \<and> calls (snd (update_reference new_commit w))
        = calls w @ [PutRef (ref_url w) (authorization w) new_commit]"
  using update_reference_ok [of w new_commit] update_reference_rejected [of w new_commit]
    update_reference_calls [of new_commit w]
  by blast

section \<open>Facts about the steps of the commit\<close>

lemma dict_set_fresh: "k \<notin> set (dict_keys d) \<Longrightarrow> dict_set k v d = d @ [(k, v)]"
  by (induction d) (auto simp: dict_keys_def)

lemma dict_update_fresh:
  "distinct (dict_keys b) \<Longrightarrow> set (dict_keys b) \<inter> set (dict_keys a) = {} \<Longrightarrow>
   dict_update a b = a @ b"
  unfolding dict_update_def
proof (induction b arbitrary: a)
  case Nil
  then show ?case by simp
next
  case (Cons x b)
  obtain k v where x: "x = (k, v)" by (cases x)
  from Cons.prems x have fresh: "k \<notin> set (dict_keys a)"
    by (auto simp: dict_keys_simps)
  have "distinct (dict_keys b)"
    using Cons.prems x by (simp add: dict_keys_simps)
  moreover have "set (dict_keys b) \<inter> set (dict_keys (a @ [(k, v)])) = {}"
    using Cons.prems x by (auto simp: dict_keys_def)
  ultimately have "fold (\<lambda>(k, v). dict_set k v) b (a @ [(k, v)]) = (a @ [(k, v)]) @ b"
    by (rule Cons.IH)
  then show ?case
    using x fresh by (simp add: dict_set_fresh)
qed

lemma create_blobs_cached:
  assumes "repo_cached w"
  shows "create_blobs l batch acc w =
     (Inr (dict_update acc (map (\<lambda>(p, fp). (p, blob_sha (the_host w) (dumps l fp))) batch)),
      w\<lparr>calls := calls w @ map (\<lambda>(p, fp). CreateBlob (dumps l fp) ''utf-8'') batch\<rparr>)"
  using assms
proof (induction batch arbitrary: acc w)
  case Nil
  then show ?case by (simp add: dict_update_def)
next
  case (Cons x batch)
  obtain p fp where x: "x = (p, fp)" by (cases x)
  let ?w2 = "send (CreateBlob (dumps l fp) ''utf-8'') w"
  have c: "repo_cached ?w2" using Cons.prems by (simp add: send_simps)
  show ?case
    using Cons.IH [OF c] Cons.prems x
    by (simp add: and_then_def repo_cached_id Let_def send_simps dict_update_def)
qed

lemma create_blobs_first:
  assumes "fst (repo w) = Inr ()" and "batch \<noteq> []"
  shows "create_blobs l batch acc w = create_blobs l batch acc (snd (repo w))"
proof -
  note r = repo_fst_ok [OF assms(1)]
  obtain p fp rest where b: "batch = (p, fp) # rest"
    using assms(2) by (cases batch) auto
  show ?thesis
    unfolding b
    by (subst (1 2) create_blobs.simps)
       (simp add: and_then_def repo_cached_id [OF r(1)] r(6) [symmetric] del: create_blobs.simps)
qed

lemma create_blobs_result:
  assumes "fst (repo w) = Inr ()" and "distinct (dict_keys batch)"
  shows "fst (create_blobs l batch [] w)
           = Inr (map (\<lambda>(p, fp). (p, blob_sha (the_host w) (dumps l fp))) batch)"
proof (cases "batch = []")
  case True
  then show ?thesis by simp
next
  case False
  note r = repo_fst_ok [OF assms(1)]
  have k: "dict_keys (map (\<lambda>(p, fp). (p, blob_sha (the_host w) (dumps l fp))) batch)
      = dict_keys batch"
    by (induction batch) (auto simp: dict_keys_def)
  have "dict_update [] (map (\<lambda>(p, fp). (p, blob_sha (the_host w) (dumps l fp))) batch)
      = map (\<lambda>(p, fp). (p, blob_sha (the_host w) (dumps l fp))) batch"
    using dict_update_fresh [of "map (\<lambda>(p, fp). (p, blob_sha (the_host w) (dumps l fp))) batch" "[]"]
      assms(2) k by (simp add: dict_keys_simps)
  then show ?thesis
    using create_blobs_first [OF assms(1) False, of l "[]"] create_blobs_cached [OF r(1), of l batch "[]"]
      r(3)
    by simp
qed

lemma commit_from_eq:
  assumes "fst (repo w) = Inr ()"
    and "msg = ''(syndicate): adding IDs for '' @ format_set l silos"
  shows "commit_from l blobs silos parent w =
     (case tree_sha (the_host w) (tree_entries blobs) parent of
        None \<Rightarrow> (Inl AttributeError, send (CreateTree (tree_entries blobs) parent) (snd (repo w)))
      | Some tree \<Rightarrow>
          (case commit_sha (the_host w) msg tree [parent] of
             None \<Rightarrow> (Inl AttributeError,
                send (CreateCommit msg tree [parent])
                  (send (CreateTree (tree_entries blobs) parent) (snd (repo w))))
           | Some c \<Rightarrow> update_reference c
                (send (CreateCommit msg tree [parent])
                  (send (CreateTree (tree_entries blobs) parent) (snd (repo w))))))"
proof -
  note r = repo_fst_ok [OF assms(1)]
  let ?w2 = "send (CreateTree (tree_entries blobs) parent) (snd (repo w))"
  have c2: "repo ?w2 = (Inr (), ?w2)"
    using r(1) by (simp add: repo_cached_id send_simps)
  show ?thesis
    unfolding commit_from_def and_then_def assms(2)
    by (subst r(6)) (simp add: Let_def c2 send_simps r(3) split: option.splits)
qed

lemma commit_from_failed_repo:
  assumes "fst (repo w) \<noteq> Inr ()"
  shows "\<exists>e. fst (commit_from l blobs silos parent w) = Inl e"
    and "refs (snd (commit_from l blobs silos parent w)) = refs w"
    and "commit_cursor (snd (commit_from l blobs silos parent w)) = commit_cursor w"
proof -
  obtain r w1 where rw: "repo w = (r, w1)" by (cases "repo w")
  with assms obtain e where e: "r = Inl e" by (cases r) auto
  have k: "environ w1 = environ w" "stdout w1 = stdout w" "refs w1 = refs w"
    using repo_keeps [of w] rw by simp_all
  have c: "commit_from l blobs silos parent w = (Inl e, w1)"
    by (simp add: commit_from_def and_then_def rw e)
  show "\<exists>e. fst (commit_from l blobs silos parent w) = Inl e" using c by simp
  show "refs (snd (commit_from l blobs silos parent w)) = refs w" using c k by simp
  show "commit_cursor (snd (commit_from l blobs silos parent w)) = commit_cursor w"
    using c commit_cursor_cong [OF k(1,2)] by simp
qed

lemma send_cursor: "commit_cursor (send c w) = commit_cursor w"
  by (rule commit_cursor_cong) (simp_all add: send_simps)

lemma repo_cursor: "commit_cursor (snd (repo w)) = commit_cursor w"
  by (rule commit_cursor_cong) (simp_all add: repo_keeps)

lemma ref_url_cong: "environ w' = environ w \<Longrightarrow> ref_url w' = ref_url w"
  by (simp add: ref_url_def env_str_def)

lemma authorization_cong: "environ w' = environ w \<Longrightarrow> authorization w' = authorization w"
  by (simp add: authorization_def env_str_def)

lemma commit_from_outcome:
  assumes "msg = ''(syndicate): adding IDs for '' @ format_set l silos"
  shows "case fst (commit_from l blobs silos parent w) of
          Inl a \<Rightarrow> refs (snd (commit_from l blobs silos parent w)) = refs w
                 \<and> commit_cursor (snd (commit_from l blobs silos parent w)) = commit_cursor w
        | Inr None \<Rightarrow> refs (snd (commit_from l blobs silos parent w)) = refs w
                 \<and> commit_cursor (snd (commit_from l blobs silos parent w)) = commit_cursor w
        | Inr (Some body) \<Rightarrow>
            \<exists>tree c. tree_sha (the_host w) (tree_entries blobs) parent = Some tree
              \<and> commit_sha (the_host w) msg tree [parent] = Some c
              \<and> calls (snd (commit_from l blobs silos parent w)) = calls (snd (repo w))
                   @ [CreateTree (tree_entries blobs) parent, CreateCommit msg tree [parent],
                      PutRef (ref_url w) (authorization w) c]
              \<and> refs (snd (commit_from l blobs silos parent w)) = (refs w)(ref_url w \<mapsto> c)
              \<and> commit_cursor (snd (commit_from l blobs silos parent w)) = Some c"
proof (cases "fst (repo w) = Inr ()")
  case False
  from commit_from_failed_repo [OF False, of l blobs silos parent]
  show ?thesis by auto
next
  case True
  let ?R = "commit_from l blobs silos parent w"
  let ?w2 = "send (CreateTree (tree_entries blobs) parent) (snd (repo w))"
  note eq = commit_from_eq [OF True assms, of blobs parent]
  note k = repo_keeps [of w]
  show ?thesis
  proof (cases "tree_sha (the_host w) (tree_entries blobs) parent")
    case None
    then show ?thesis
      by (simp add: eq send_simps k send_cursor repo_cursor)
  next
    case (Some tree)
    let ?w4 = "send (CreateCommit msg tree [parent]) ?w2"
    show ?thesis
    proof (cases "commit_sha (the_host w) msg tree [parent]")
      case None
      with Some show ?thesis
        by (simp add: eq send_simps k send_cursor repo_cursor)
    next
      case c: (Some c)
      have env: "environ ?w4 = environ w" by (simp add: send_simps k)
      have u: "ref_url ?w4 = ref_url w" "authorization ?w4 = authorization w"
        by (rule ref_url_cong [OF env], rule authorization_cong [OF env])
      have h: "the_host ?w4 = the_host w" by (simp add: send_simps k)
      have R: "?R = update_reference c ?w4"
        using Some c by (simp add: eq)
      show ?thesis
      proof (cases "fst (ref_response (the_host w) (ref_url w) c) = 200")
        case True
        then have ok: "fst (ref_response (the_host ?w4) (ref_url ?w4) c) = 200"
          by (simp add: u h)
        from update_reference_ok [OF ok] update_reference_calls [of c ?w4] Some c
        show ?thesis
          by (simp add: R u h send_simps k)
      next
        case False
        then have no: "fst (ref_response (the_host ?w4) (ref_url ?w4) c) \<noteq> 200"
          by (simp add: u h)
        from update_reference_rejected [OF no]
        show ?thesis
          by (simp add: R send_simps k send_cursor repo_cursor)
      qed
    qed
  qed
qed

section \<open>Facts about the search through the pages\<close>

lemma search_pages_exhausted:
  assumes "\<forall>j<k. listing (page + j) \<noteq> []
              \<and> find (\<lambda>a. article_id a = post_id) (listing (page + j)) = None"
    and "listing (page + k) = []"
  shows "search_pages listing post_id page = Some (None, page + k)"
  using assms
proof (induction k arbitrary: page)
  case 0
  then show ?case by (subst search_pages.simps) simp
next
  case (Suc k)
  from Suc.prems(1) have here: "listing page \<noteq> []"
    "find (\<lambda>a. article_id a = post_id) (listing page) = None"
    by (metis add.right_neutral zero_less_Suc)+
  have "\<forall>j<k. listing (Suc page + j) \<noteq> []
              \<and> find (\<lambda>a. article_id a = post_id) (listing (Suc page + j)) = None"
    using Suc.prems(1) by (metis Suc_less_eq add_Suc_right add_Suc)
  moreover have "listing (Suc page + k) = []"
    using Suc.prems(2) by simp
  ultimately have "search_pages listing post_id (Suc page) = Some (None, Suc page + k)"
    by (rule Suc.IH)
  then show ?case
    using here by (subst search_pages.simps) simp
qed

lemma search_pages_returns:
  assumes "listing (page + k) = []"
  shows "\<exists>found n. search_pages listing post_id page = Some (found, n) \<and> n \<le> page + k"
  using assms
proof (induction k arbitrary: page)
  case 0
  then have "search_pages listing post_id page = Some (None, page)"
    by (subst search_pages.simps) simp
  then show ?case by simp
next
  case (Suc k)
  show ?case
  proof (cases "listing page = []")
    case True
    then have "search_pages listing post_id page = Some (None, page)"
      by (subst search_pages.simps) simp
    then show ?thesis by simp
  next
    case False
    show ?thesis
    proof (cases "find (\<lambda>a. article_id a = post_id) (listing page)")
      case (Some a)
      with False have "search_pages listing post_id page = Some (Some a, page)"
        by (subst search_pages.simps) simp
      then show ?thesis by simp
    next
      case None
      from Suc.prems have "listing (Suc page + k) = []" by simp
      from Suc.IH [OF this] obtain found n where
        r: "search_pages listing post_id (Suc page) = Some (found, n)" "n \<le> Suc page + k"
        by blast
      from False None r(1) have "search_pages listing post_id page = Some (found, n)"
        by (subst search_pages.simps) simp
      with r(2) show ?thesis by simp
    qed
  qed
qed

section \<open>Properties\<close>

text \<open>
  C10. \<^verbatim>\<open>fronted\<close> returns a value that is already a \<^verbatim>\<open>frontmatter.Post\<close> unchanged;
  whenever it returns a post for some input, applying it again to that post returns
  the same post; and on a false argument (\<^verbatim>\<open>None\<close>, the empty string) it fails with
  the assertion error \<^verbatim>\<open>missing post\<close>.
\<close>

theorem fronted_idempotent:
  "fronted l (PyPost fp) = Inr fp
   \<and> (fronted l p = Inr q \<longrightarrow> fronted l (PyPost q) = fronted l p)
   \<and> (\<not> obj_truthy p \<longrightarrow> fronted l p = Inl (AssertionError ''missing post''))"
  by (simp add: fronted_def)

theorem fronted_idempotent_witness:
  "fronted lib0 (PyContents \<lparr>path = ''posts/a.md'', decoded = ''hello''\<rparr>)
     = Inr \<lparr>metadata = [], content = ''hello'', handler = None\<rparr>
   \<and> fronted lib0 (PyPost \<lparr>metadata = [], content = ''hello'', handler = None\<rparr>)
     = fronted lib0 (PyContents \<lparr>path = ''posts/a.md'', decoded = ''hello''\<rparr>)
   \<and> \<not> obj_truthy PyNone
   \<and> fronted lib0 PyNone = Inl (AssertionError ''missing post'')"
proof -
  have a: "fronted lib0 (PyContents \<lparr>path = ''posts/a.md'', decoded = ''hello''\<rparr>)
     = Inr \<lparr>metadata = [], content = ''hello'', handler = None\<rparr>"
    by (simp add: fronted_def lib0_def)
  have b: "\<not> obj_truthy PyNone" by simp
  from fronted_idempotent [of lib0 "\<lparr>metadata = [], content = ''hello'', handler = None\<rparr>"
      "PyContents \<lparr>path = ''posts/a.md'', decoded = ''hello''\<rparr>"
      "\<lparr>metadata = [], content = ''hello'', handler = None\<rparr>"]
    fronted_idempotent [of lib0 "\<lparr>metadata = [], content = ''hello'', handler = None\<rparr>"
      PyNone "\<lparr>metadata = [], content = ''hello'', handler = None\<rparr>"]
    a b
  show ?thesis by simp
qed

text \<open>
  C4, as stated, fails: a syndicate key that is present with a false value (here the
  YAML null of an empty \<^verbatim>\<open>dev_syndicate_id:\<close> line) counts as absent for line 179, and
  the merge of line 188 replaces its value.
\<close>

theorem merge_overwrites_false_value:
  "dict_get (metadata post1) ''dev_syndicate_id'' = Some VNone
   \<and> mark_post lib0 post1 [(''DEV'', VInt 42)] {} = Inr (Some post1m, {''DEV''})
   \<and> dict_get (metadata post1m) ''dev_syndicate_id'' = Some (VInt 42)"
  by code_simp

text \<open>
  C4, amended. For a post whose header has no key named like a parameter of the
  \<^verbatim>\<open>Post\<close> constructor (\<^verbatim>\<open>content\<close>, \<^verbatim>\<open>handler\<close>; no post built by the constructor has
  one), merging the new syndicate IDs keeps the value of every key that is true or is
  not a syndicate key of the silos being merged; puts under every syndicate key of
  these silos whose value is false or missing the ID given for it (that of the last
  silo with this key, should several silos share it); keeps the header's keys in their
  order and adds after them, once each, exactly the syndicate keys of these silos that
  the header did not have; and keeps the body.
\<close>

theorem merge_keeps_header:
  assumes "mark_post l fp ids silos = Inr (Some up, silos')"
    and "''content'' \<notin> set (dict_keys (metadata fp))"
    and "''handler'' \<notin> set (dict_keys (metadata fp))"
  shows "(\<forall>k v. dict_get (metadata fp) k = Some v
            \<and> (truthy v \<or> k \<notin> syndicate_key_for l ` fst ` set ids)
          \<longrightarrow> dict_get (metadata up) k = Some v)
       \<and> (\<forall>k. k \<in> syndicate_key_for l ` fst ` set ids \<and> \<not> truthy (post_get fp k)
          \<longrightarrow> dict_get (metadata up) k
                = map_of (rev (map (\<lambda>(silo, sid). (syndicate_key_for l silo, sid)) ids)) k)
       \<and> (\<exists>ks. dict_keys (metadata up) = dict_keys (metadata fp) @ ks
              \<and> distinct ks
              \<and> set ks = syndicate_key_for l ` fst ` set ids - set (dict_keys (metadata fp)))
       \<and> content up = content fp"
proof (intro conjI allI impI)
  fix k v
  assume h: "dict_get (metadata fp) k = Some v
     \<and> (truthy v \<or> k \<notin> syndicate_key_for l ` fst ` set ids)"
  then have "k \<in> set (dict_keys (metadata fp))"
    by (simp add: in_dict_keys_iff)
  with assms(2,3) have "k \<noteq> ''content''" "k \<noteq> ''handler''" by auto
  moreover from h have "truthy (post_get fp k) \<or> k \<notin> syndicate_key_for l ` fst ` set ids"
    by (auto simp: post_get_def)
  ultimately have "dict_get (metadata up) k = dict_get (metadata fp) k"
    using merged_get [OF assms(1)] by blast
  with h show "dict_get (metadata up) k = Some v" by simp
next
  fix k
  assume "k \<in> syndicate_key_for l ` fst ` set ids \<and> \<not> truthy (post_get fp k)"
  then show "dict_get (metadata up) k
      = map_of (rev (map (\<lambda>(silo, sid). (syndicate_key_for l silo, sid)) ids)) k"
    using merged_value [OF assms(1)] by blast
next
  show "\<exists>ks. dict_keys (metadata up) = dict_keys (metadata fp) @ ks
              \<and> distinct ks
              \<and> set ks = syndicate_key_for l ` fst ` set ids - set (dict_keys (metadata fp))"
    by (rule merged_keys_exact [OF assms])
next
  show "content up = content fp" by (rule merged_content [OF assms(1)])
qed

theorem merge_keeps_header_witness:
  "mark_post lib0 post2 [(''DEV'', VInt 42), (''Medium'', VInt 9)] {}
      = Inr (Some post2m, {''DEV''})
   \<and> ''content'' \<notin> set (dict_keys (metadata post2))
   \<and> ''handler'' \<notin> set (dict_keys (metadata post2))
   \<and> dict_get (metadata post2m) ''medium_syndicate_id'' = Some (VInt 7)
   \<and> dict_get (metadata post2m) ''title'' = Some (VStr ''Hello'')
   \<and> dict_get (metadata post2m) ''dev_syndicate_id'' = Some (VInt 42)
   \<and> take 2 (dict_keys (metadata post2m)) = dict_keys (metadata post2)
   \<and> content post2m = content post2
   \<and> mark_post lib0 post1 [(''DEV'', VInt 42)] {} = Inr (Some post1m, {''DEV''})
   \<and> ''content'' \<notin> set (dict_keys (metadata post1))
   \<and> ''handler'' \<notin> set (dict_keys (metadata post1))
   \<and> dict_get (metadata post1m) ''dev_syndicate_id'' = Some (VInt 42)
   \<and> dict_keys (metadata post1m) = dict_keys (metadata post1)"
proof -
  have run: "mark_post lib0 post2 [(''DEV'', VInt 42), (''Medium'', VInt 9)] {}
      = Inr (Some post2m, {''DEV''})"
    by code_simp
  have c: "''content'' \<notin> set (dict_keys (metadata post2))" by code_simp
  have h: "''handler'' \<notin> set (dict_keys (metadata post2))" by code_simp
  have m: "dict_get (metadata post2) ''medium_syndicate_id'' = Some (VInt 7)" by code_simp
  have t: "dict_get (metadata post2) ''title'' = Some (VStr ''Hello'')" by code_simp
  have tk: "''title'' \<notin> syndicate_key_for lib0 ` fst ` set [(''DEV'', VInt 42), (''Medium'', VInt 9)]"
    by code_simp
  have dk: "''dev_syndicate_id''
      \<in> syndicate_key_for lib0 ` fst ` set [(''DEV'', VInt 42), (''Medium'', VInt 9)]"
    by code_simp
  have df: "\<not> truthy (post_get post2 ''dev_syndicate_id'')" by code_simp
  have dv: "map_of (rev (map (\<lambda>(silo, sid). (syndicate_key_for lib0 silo, sid))
        [(''DEV'', VInt 42), (''Medium'', VInt 9)])) ''dev_syndicate_id'' = Some (VInt 42)"
    by code_simp
  have len: "length (dict_keys (metadata post2)) = 2" by code_simp
  note res = merge_keeps_header [OF run c h]
  have tm: "truthy (VInt 7)" by simp
  note 1 = res [THEN conjunct1, rule_format, OF conjI [OF m disjI1 [OF tm]]]
  note 2 = res [THEN conjunct1, rule_format, OF conjI [OF t disjI2 [OF tk]]]
  note val = res [THEN conjunct2, THEN conjunct1, rule_format, OF conjI [OF dk df]]
  from val dv have 3: "dict_get (metadata post2m) ''dev_syndicate_id'' = Some (VInt 42)"
    by (rule trans)
  from res [THEN conjunct2, THEN conjunct2, THEN conjunct1]
  obtain ks where "dict_keys (metadata post2m) = dict_keys (metadata post2) @ ks"
    by blast
  with len have 4: "take 2 (dict_keys (metadata post2m)) = dict_keys (metadata post2)"
    by simp
  note 5 = res [THEN conjunct2, THEN conjunct2, THEN conjunct2]
  have run1: "mark_post lib0 post1 [(''DEV'', VInt 42)] {} = Inr (Some post1m, {''DEV''})"
    by code_simp
  have c1: "''content'' \<notin> set (dict_keys (metadata post1))" by code_simp
  have h1: "''handler'' \<notin> set (dict_keys (metadata post1))" by code_simp
  have dk1: "''dev_syndicate_id'' \<in> syndicate_key_for lib0 ` fst ` set [(''DEV'', VInt 42)]"
    by code_simp
  have df1: "\<not> truthy (post_get post1 ''dev_syndicate_id'')" by code_simp
  have dv1: "map_of (rev (map (\<lambda>(silo, sid). (syndicate_key_for lib0 silo, sid))
        [(''DEV'', VInt 42)])) ''dev_syndicate_id'' = Some (VInt 42)"
    by code_simp
  have in1: "syndicate_key_for lib0 ` fst ` set [(''DEV'', VInt 42)]
      - set (dict_keys (metadata post1)) = {}" by code_simp
  note res1 = merge_keeps_header [OF run1 c1 h1]
  note val1 = res1 [THEN conjunct2, THEN conjunct1, rule_format, OF conjI [OF dk1 df1]]
  from val1 dv1 have 6: "dict_get (metadata post1m) ''dev_syndicate_id'' = Some (VInt 42)"
    by (rule trans)
  from res1 [THEN conjunct2, THEN conjunct2, THEN conjunct1] obtain ks1 where
    k1: "dict_keys (metadata post1m) = dict_keys (metadata post1) @ ks1"
      "set ks1 = syndicate_key_for lib0 ` fst ` set [(''DEV'', VInt 42)]
         - set (dict_keys (metadata post1))"
    by blast
  from k1(2) in1 have "ks1 = []" by simp
  with k1(1) have 7: "dict_keys (metadata post1m) = dict_keys (metadata post1)"
    by simp
  from run c h 1 2 3 4 5 run1 c1 h1 6 7 show ?thesis by blast
qed

text \<open>
  C5. When the header of a post already holds a true value under the syndicate key of
  silo \<open>S\<close>, the new IDs collected for that post have no entry for that key, the
  rebuilt post holds the same value under it, and a post all of whose silos are
  already recorded does not appear in the batch handed to the commit.
\<close>

theorem marked_pair_skipped:
  assumes "dict_get (metadata fp) (syndicate_key_for l S) = Some v" and "truthy v"
  shows "(new_syndicate_ids l fp ids ([], silos) = Inr (new, silos')
            \<longrightarrow> syndicate_key_for l S \<notin> set (dict_keys new))
       \<and> (mark_post l fp ids silos = Inr (Some up, silos')
            \<longrightarrow> dict_get (metadata up) (syndicate_key_for l S) = Some v)
       \<and> (mark_loop l posts ids_by_path ([], {}) = Inr (updated, silos_included)
            \<and> dict_get posts P = Some fp
            \<and> (\<forall>(p, ids) \<in> set ids_by_path. p = P \<longrightarrow>
                  (\<forall>(silo, sid) \<in> set ids. truthy (post_get fp (syndicate_key_for l silo))))
            \<longrightarrow> P \<notin> set (dict_keys updated))"
proof (intro conjI impI)
  have t: "truthy (post_get fp (syndicate_key_for l S))"
    using assms by (simp add: post_get_def)
  {
    assume n: "new_syndicate_ids l fp ids ([], silos) = Inr (new, silos')"
    show "syndicate_key_for l S \<notin> set (dict_keys new)"
    proof
      assume "syndicate_key_for l S \<in> set (dict_keys new)"
      from new_ids_keys [OF n this] t show False by (auto simp: dict_keys_simps)
    qed
  }
  {
    assume m: "mark_post l fp ids silos = Inr (Some up, silos')"
    from merged_get [OF m syndicate_key_not_content syndicate_key_not_handler] t assms(1)
    show "dict_get (metadata up) (syndicate_key_for l S) = Some v" by simp
  }
  {
    assume h: "mark_loop l posts ids_by_path ([], {}) = Inr (updated, silos_included)
            \<and> dict_get posts P = Some fp
            \<and> (\<forall>(p, ids) \<in> set ids_by_path. p = P \<longrightarrow>
                  (\<forall>(silo, sid) \<in> set ids. truthy (post_get fp (syndicate_key_for l silo))))"
    then show "P \<notin> set (dict_keys updated)"
      using mark_loop_excludes [of l posts ids_by_path "[]" "{}" updated silos_included P fp]
      by (simp add: dict_keys_simps)
  }
qed

theorem marked_pair_skipped_witness:
  "dict_get (metadata post3) (syndicate_key_for lib0 ''DEV'') = Some (VInt 7)
   \<and> truthy (VInt 7)
   \<and> new_syndicate_ids lib0 post3 [(''DEV'', VInt 42), (''Medium'', VInt 9)] ([], {})
       = Inr ([(''medium_syndicate_id'', VInt 9)], {''Medium''})
   \<and> syndicate_key_for lib0 ''DEV'' \<notin> set (dict_keys [(''medium_syndicate_id'', VInt 9)])
   \<and> mark_post lib0 post3 [(''DEV'', VInt 42), (''Medium'', VInt 9)] {}
       = Inr (Some post3m, {''Medium''})
   \<and> dict_get (metadata post3m) (syndicate_key_for lib0 ''DEV'') = Some (VInt 7)
   \<and> mark_loop lib0 [(''posts/a.md'', post1), (''posts/b.md'', post3)]
        [(''posts/a.md'', [(''DEV'', VInt 42)]), (''posts/b.md'', [(''DEV'', VInt 43)])] ([], {})
       = Inr ([(''posts/a.md'', post1m)], {''DEV''})
   \<and> dict_get [(''posts/a.md'', post1), (''posts/b.md'', post3)] ''posts/b.md'' = Some post3
   \<and> ''posts/b.md'' \<notin> set (dict_keys [(''posts/a.md'', post1m)])"
proof -
  have a: "dict_get (metadata post3) (syndicate_key_for lib0 ''DEV'') = Some (VInt 7)"
    by code_simp
  have b: "truthy (VInt 7)" by simp
  have n: "new_syndicate_ids lib0 post3 [(''DEV'', VInt 42), (''Medium'', VInt 9)] ([], {})
       = Inr ([(''medium_syndicate_id'', VInt 9)], {''Medium''})"
    by code_simp
  have m: "mark_post lib0 post3 [(''DEV'', VInt 42), (''Medium'', VInt 9)] {}
       = Inr (Some post3m, {''Medium''})"
    by code_simp
  have lp: "mark_loop lib0 [(''posts/a.md'', post1), (''posts/b.md'', post3)]
        [(''posts/a.md'', [(''DEV'', VInt 42)]), (''posts/b.md'', [(''DEV'', VInt 43)])] ([], {})
       = Inr ([(''posts/a.md'', post1m)], {''DEV''})"
    by code_simp
  have g: "dict_get [(''posts/a.md'', post1), (''posts/b.md'', post3)] ''posts/b.md'' = Some post3"
    by code_simp
  have all: "\<forall>(p, ids) \<in> set [(''posts/a.md'', [(''DEV'', VInt 42)]), (''posts/b.md'', [(''DEV'', VInt 43)])].
       p = ''posts/b.md'' \<longrightarrow>
        (\<forall>(silo, sid) \<in> set ids. truthy (post_get post3 (syndicate_key_for lib0 silo)))"
    using a by (simp add: post_get_def)
  note res = marked_pair_skipped [OF a b, of
      "[(''DEV'', VInt 42), (''Medium'', VInt 9)]" "{}" "[(''medium_syndicate_id'', VInt 9)]"
      "{''Medium''}" post3m
      "[(''posts/a.md'', post1), (''posts/b.md'', post3)]"
      "[(''posts/a.md'', [(''DEV'', VInt 42)]), (''posts/b.md'', [(''DEV'', VInt 43)])]"
      "[(''posts/a.md'', post1m)]" "{''DEV''}" "''posts/b.md''"]
  from res n have 1: "syndicate_key_for lib0 ''DEV'' \<notin> set (dict_keys [(''medium_syndicate_id'', VInt 9)])"
    by blast
  from res m have 2: "dict_get (metadata post3m) (syndicate_key_for lib0 ''DEV'') = Some (VInt 7)"
    by blast
  from res lp g all have 3: "''posts/b.md'' \<notin> set (dict_keys [(''posts/a.md'', post1m)])"
    by blast
  from a b n 1 m 2 lp g 3 show ?thesis by blast
qed

text \<open>
  C6. For an empty batch \<^verbatim>\<open>commit_updated_posts\<close> returns \<^verbatim>\<open>None\<close> and does nothing but
  print one line, \<^verbatim>\<open>All good: already marked.\<close>: no request is sent, no reference
  moves, the cursor stays. No environment variable is needed for that.
\<close>

theorem empty_batch_noop:
  "commit_updated_posts l [] silos w
     = (Inr None, w\<lparr>stdout := stdout w @ [Log ''All good: already marked.'']\<rparr>)
   \<and> calls (snd (commit_updated_posts l [] silos w)) = calls w
   \<and> refs (snd (commit_updated_posts l [] silos w)) = refs w
   \<and> commit_cursor (snd (commit_updated_posts l [] silos w)) = commit_cursor w"
  by (simp add: commit_updated_posts_def print_line_def commit_cursor_def job_environ_def
      cong: option.case_cong)

text \<open>
  C7. In a process where \<^verbatim>\<open>GITHUB_SHA\<close> is set and \<^verbatim>\<open>repo()\<close> succeeds, the changed files
  are requested for the commit \<^verbatim>\<open>GITHUB_SHA\<close>, whatever \<^verbatim>\<open>SYNDICATE_SHA\<close> is, and the
  contents of a file are requested at \<^verbatim>\<open>SYNDICATE_SHA\<close> when it is set and at
  \<^verbatim>\<open>GITHUB_SHA\<close> otherwise. When the process is a step of a job whose earlier steps
  left the world \<open>w0\<close>, that commit is the Commit Cursor those steps left.
\<close>

theorem reads_follow_cursor:
  assumes "env_true w ''GITHUB_SHA''" and "fst (repo w) = Inr ()"
  shows "calls (snd (get_trigger_payload w))
           = calls (snd (repo w)) @ [GetCommit (getenv w ''GITHUB_SHA'')]
       \<and> fst (get_trigger_payload w)
           = (case commit_files (the_host w) (getenv w ''GITHUB_SHA'') of
                None \<Rightarrow> Inl AttributeError
              | Some files \<Rightarrow> Inr files)
       \<and> calls (snd (file_contents name w))
           = calls (snd (repo w)) @ [GetFileContents name (known_commit w)]
       \<and> fst (file_contents name w) = Inr (fetched w name)
       \<and> known_commit w = (case environ w ''SYNDICATE_SHA'' of
                              None \<Rightarrow> getenv w ''GITHUB_SHA''
                            | Some s \<Rightarrow> s)
       \<and> (environ w = job_environ w0 \<longrightarrow> commit_cursor w0 = Some (known_commit w))"
proof -
  note r = repo_fst_ok [OF assms(2)]
  have e: "env_true (snd (repo w)) ''GITHUB_SHA''"
    using assms(1) r(2) by (simp add: env_true_def)
  have g: "getenv (snd (repo w)) ''GITHUB_SHA'' = getenv w ''GITHUB_SHA''"
    using r(2) by (simp add: getenv_def)
  have k: "known_commit (snd (repo w)) = known_commit w"
    using r(2) by (simp add: known_commit_def getenv_def cong: option.case_cong)
  have 1: "get_trigger_payload w =
     (case commit_files (the_host w) (getenv w ''GITHUB_SHA'') of
        None \<Rightarrow> Inl AttributeError | Some files \<Rightarrow> Inr files,
      send (GetCommit (getenv w ''GITHUB_SHA'')) (snd (repo w)))"
    using assms(1) r(6) g r(3)
    by (cases "repo w") (auto simp: get_trigger_payload_def and_then_def Let_def send_simps
        split: option.splits)
  have "parent_sha (snd (repo w)) = Inr (known_commit w)"
    using e k by (simp add: parent_sha_def known_commit_def)
  then have 2: "file_contents name w =
     (Inr (fetched w name), send (GetFileContents name (known_commit w)) (snd (repo w)))"
    using r(6) r(3) k
    by (cases "repo w") (auto simp: file_contents_def and_then_def Let_def send_simps
        fetched_def)
  have 3: "environ w = job_environ w0 \<longrightarrow> commit_cursor w0 = Some (known_commit w)"
    using assms(1)
    by (auto simp: commit_cursor_def known_commit_def env_true_def getenv_def
        split: option.splits)
  show ?thesis
    using 1 2 3 by (simp add: send_simps known_commit_def)
qed

theorem reads_follow_cursor_witness:
  "env_true world1 ''GITHUB_SHA'' \<and> fst (repo world1) = Inr ()
   \<and> calls (snd (get_trigger_payload world1))
       = [GetRepository ''owner'' ''blog'', GetCommit ''sha1'']
   \<and> calls (snd (file_contents ''posts/a.md'' world1))
       = [GetRepository ''owner'' ''blog'', GetFileContents ''posts/a.md'' ''sha2'']
   \<and> fst (file_contents ''posts/a.md'' world1)
       = Inr (PyContents \<lparr>path = ''posts/a.md'', decoded = ''text at sha2''\<rparr>)
   \<and> environ world1 = job_environ world0_done
   \<and> commit_cursor world0_done = Some ''sha2''"
proof -
  have a: "env_true world1 ''GITHUB_SHA''" by code_simp
  have b: "fst (repo world1) = Inr ()" by code_simp
  have c: "calls (snd (repo world1)) = [GetRepository ''owner'' ''blog'']" by code_simp
  have g: "getenv world1 ''GITHUB_SHA'' = ''sha1''" by code_simp
  have k: "known_commit world1 = ''sha2''" by code_simp
  have f: "fetched world1 ''posts/a.md''
      = PyContents \<lparr>path = ''posts/a.md'', decoded = ''text at sha2''\<rparr>" by code_simp
  have e: "environ world1 = job_environ world0_done"
    by (simp add: world1_def world0_done_def job_environ_def)
  from reads_follow_cursor [OF a b, of "''posts/a.md''" world0_done] c g k f e a b
  show ?thesis by simp
qed

text \<open>
  C8. With the changed files of the triggering commit at hand, \<^verbatim>\<open>get_posts\<close> fails with
  the assertion \<^verbatim>\<open>target commit was empty\<close> when there are none, and otherwise returns
  the contents of exactly the files whose name starts with the posts directory and
  whose status is not \<^verbatim>\<open>deleted\<close>, in their order; the requests it sends for file
  contents are those of these files and no other.
\<close>

theorem get_posts_exact:
  assumes "env_true w ''GITHUB_SHA''" and "fst (repo w) = Inr ()"
    and "commit_files (the_host w) (getenv w ''GITHUB_SHA'') = Some files"
  shows "(files = [] \<longrightarrow>
            fst (get_posts post_dir w) = Inl (AssertionError ''target commit was empty''))
       \<and> (files \<noteq> [] \<longrightarrow>
            fst (get_posts post_dir w)
              = Inr (map (\<lambda>file. fetched w (filename file))
                      (filter (\<lambda>file. startswith (filename file) post_dir
                                 \<and> status file \<noteq> ''deleted'') files))
            \<and> calls (snd (get_posts post_dir w))
              = calls (snd (repo w)) @ GetCommit (getenv w ''GITHUB_SHA'')
                  # map (\<lambda>file. GetFileContents (filename file) (known_commit w))
                      (filter (\<lambda>file. startswith (filename file) post_dir
                                 \<and> status file \<noteq> ''deleted'') files))
       \<and> (environ w ''SYNDICATE_POST_DIR'' = None \<longrightarrow> default_post_dir w = ''posts'')"
proof -
  note r = repo_fst_ok [OF assms(2)]
  let ?w1 = "send (GetCommit (getenv w ''GITHUB_SHA'')) (snd (repo w))"
  have g: "getenv (snd (repo w)) ''GITHUB_SHA'' = getenv w ''GITHUB_SHA''"
    using r(2) by (simp add: getenv_def)
  have payload: "get_trigger_payload w = (Inr files, ?w1)"
    using assms(1,3) r(6) g r(3)
    by (cases "repo w") (auto simp: get_trigger_payload_def and_then_def Let_def send_simps)
  have c: "repo_cached ?w1" "env_true ?w1 ''GITHUB_SHA''"
    using r(1,2) assms(1) by (simp_all add: send_simps env_true_def)
  have k: "known_commit ?w1 = known_commit w"
    using r(2) by (simp add: known_commit_def getenv_def send_simps cong: option.case_cong)
  have f: "\<And>n. fetched ?w1 n = fetched w n"
    using r(3) k by (simp add: fetched_def send_simps)
  show ?thesis
    using payload fetch_posts_cached [OF c] k f
    by (simp add: get_posts_def and_then_def send_simps default_post_dir_def)
qed

theorem get_posts_exact_witness:
  "env_true world1 ''GITHUB_SHA'' \<and> fst (repo world1) = Inr ()
   \<and> commit_files (the_host world1) (getenv world1 ''GITHUB_SHA'')
       = Some [\<lparr>filename = ''posts/a.md'', status = ''modified''\<rparr>,
               \<lparr>filename = ''posts/b.md'', status = ''deleted''\<rparr>,
               \<lparr>filename = ''README.md'', status = ''modified''\<rparr>]
   \<and> fst (get_posts ''posts'' world1)
       = Inr [PyContents \<lparr>path = ''posts/a.md'', decoded = ''text at sha2''\<rparr>]
   \<and> calls (snd (get_posts ''posts'' world1))
       = [GetRepository ''owner'' ''blog'', GetCommit ''sha1'',
          GetFileContents ''posts/a.md'' ''sha2'']
   \<and> environ world1 ''SYNDICATE_POST_DIR'' = None
   \<and> default_post_dir world1 = ''posts''"
proof -
  have d: "environ world1 ''SYNDICATE_POST_DIR'' = None" by code_simp
  have a: "env_true world1 ''GITHUB_SHA''" by code_simp
  have b: "fst (repo world1) = Inr ()" by code_simp
  have fs: "commit_files (the_host world1) (getenv world1 ''GITHUB_SHA'')
       = Some [\<lparr>filename = ''posts/a.md'', status = ''modified''\<rparr>,
               \<lparr>filename = ''posts/b.md'', status = ''deleted''\<rparr>,
               \<lparr>filename = ''README.md'', status = ''modified''\<rparr>]" by code_simp
  have c: "calls (snd (repo world1)) = [GetRepository ''owner'' ''blog'']" by code_simp
  have g: "getenv world1 ''GITHUB_SHA'' = ''sha1''" by code_simp
  have k: "known_commit world1 = ''sha2''" by code_simp
  have f: "fetched world1 ''posts/a.md''
      = PyContents \<lparr>path = ''posts/a.md'', decoded = ''text at sha2''\<rparr>" by code_simp
  have s: "startswith ''posts/a.md'' ''posts''" "startswith ''posts/b.md'' ''posts''"
    "\<not> startswith ''README.md'' ''posts''" by code_simp+
  from get_posts_exact [OF a b fs, of "''posts''"] c g k f s a b fs d
  show ?thesis by simp
qed

text \<open>
  C3 (the Commit Cursor is advanced to the new commit exactly when the reference update
  succeeds; when it fails an error is logged, nothing is returned and the cursor stays)
  does not hold of the function as it is written. Lines 255 to 257 are there to advance
  the cursor: on a host that answers 200, \<open>update_reference\<close> alone makes the new
  commit the cursor. But \<^verbatim>\<open>commit_updated_posts\<close>, on that same host and with every
  variable of the environment set, raises \<^verbatim>\<open>UnboundLocalError\<close> at line 223 for any
  batch that is not empty, here two posts: the reference update is never requested,
  nothing is printed, an exception comes back where a result or \<^verbatim>\<open>None\<close> should, and the cursor is still the
  triggering commit. The same happens through the caller, \<^verbatim>\<open>mark_syndicated_posts\<close>.
\<close>

theorem cursor_never_advanced:
  "fst (ref_response (the_host world0) (ref_url world0) ''commit of tree on sha1'') = 200
   \<and> commit_cursor (snd (update_reference ''commit of tree on sha1'' world0))
       = Some ''commit of tree on sha1''
   \<and> commit_cursor world0 = Some ''sha1''
   \<and> fst (commit_updated_posts lib0 batch1 {''DEV'', ''Medium''} world0)
       = Inl (UnboundLocalError ''parent_sha'')
   \<and> calls (snd (commit_updated_posts lib0 batch1 {''DEV'', ''Medium''} world0))
       = [GetRepository ''owner'' ''blog'', CreateBlob ''body'' ''utf-8'',
          CreateBlob ''text'' ''utf-8'']
   \<and> stdout (snd (commit_updated_posts lib0 batch1 {''DEV'', ''Medium''} world0)) = []
   \<and> commit_cursor (snd (commit_updated_posts lib0 batch1 {''DEV'', ''Medium''} world0))
       = Some ''sha1''
   \<and> fst (mark_syndicated_posts lib0 [(''posts/a.md'', [(''DEV'', VInt 42)])]
            [(''posts/a.md'', post1)] world0)
       = Inl (UnboundLocalError ''parent_sha'')
   \<and> commit_cursor (snd (mark_syndicated_posts lib0 [(''posts/a.md'', [(''DEV'', VInt 42)])]
            [(''posts/a.md'', post1)] world0))
       = Some ''sha1''"
  by code_simp

text \<open>
  C1 (for a batch that is not empty the four steps run in sequence: blobs, tree,
  commit, reference update) does not hold of the function as it is written. With every
  variable of the environment set, a batch of one post and a host that accepts
  everything, \<^verbatim>\<open>commit_updated_posts\<close> creates the blob and then raises
  \<^verbatim>\<open>UnboundLocalError\<close> at line 223: no tree, no commit and no reference update is
  requested.
\<close>

theorem commit_stops_before_tree:
  "fst (commit_updated_posts lib0 batch0 {''DEV''} world0) = Inl (UnboundLocalError ''parent_sha'')
   \<and> calls (snd (commit_updated_posts lib0 batch0 {''DEV''} world0))
       = [GetRepository ''owner'' ''blog'', CreateBlob ''body'' ''utf-8'']"
  by code_simp

text \<open>
  C2. For a batch that is not empty, \<^verbatim>\<open>commit_updated_posts\<close> leaves every reference of
  the repository and the Commit Cursor as they were. The steps that follow the blobs
  (lines 224 to 262, from any parent commit) have two outcomes only: a result is
  returned, and then exactly one tree over the parent with an entry for every blob,
  one commit of that tree on that parent and one reference update were requested, in
  this order, and the reference and the cursor are the new commit; or no result is
  returned, and then the references and the cursor are unchanged. Objects created
  before a failure stay on the host with no reference to them. The blobs are those of
  the serialised posts, one for each path.
\<close>

theorem commit_is_atomic:
  assumes "fronted_posts_by_path \<noteq> []"
  shows "refs (snd (commit_updated_posts l fronted_posts_by_path silos w)) = refs w
       \<and> commit_cursor (snd (commit_updated_posts l fronted_posts_by_path silos w))
           = commit_cursor w
       \<and> (case fst (commit_from l blobs silos parent w) of
             Inr (Some body) \<Rightarrow>
               (\<exists>tree c.
                   tree_sha (the_host w) (tree_entries blobs) parent = Some tree
                 \<and> commit_sha (the_host w) (''(syndicate): adding IDs for '' @ format_set l silos)
                      tree [parent] = Some c
                 \<and> calls (snd (commit_from l blobs silos parent w))
                     = calls (snd (repo w))
                       @ [CreateTree (tree_entries blobs) parent,
                          CreateCommit (''(syndicate): adding IDs for '' @ format_set l silos)
                            tree [parent],
                          PutRef (ref_url w) (authorization w) c]
                 \<and> refs (snd (commit_from l blobs silos parent w)) = (refs w)(ref_url w \<mapsto> c)
                 \<and> commit_cursor (snd (commit_from l blobs silos parent w)) = Some c)
           | _ \<Rightarrow>
               refs (snd (commit_from l blobs silos parent w)) = refs w
             \<and> commit_cursor (snd (commit_from l blobs silos parent w)) = commit_cursor w)
       \<and> (fst (repo w) = Inr () \<and> distinct (dict_keys fronted_posts_by_path) \<longrightarrow>
             fst (create_blobs l fronted_posts_by_path [] w)
               = Inr (map (\<lambda>(p, fp). (p, blob_sha (the_host w) (dumps l fp)))
                       fronted_posts_by_path))"
proof (intro conjI)
  note st = commit_updated_posts_stops [OF assms, of l silos w]
  show "refs (snd (commit_updated_posts l fronted_posts_by_path silos w)) = refs w"
    by (rule st(2))
  show "commit_cursor (snd (commit_updated_posts l fronted_posts_by_path silos w))
           = commit_cursor w"
    by (rule commit_cursor_cong [OF st(4) st(3)])
  show "fst (repo w) = Inr () \<and> distinct (dict_keys fronted_posts_by_path) \<longrightarrow>
             fst (create_blobs l fronted_posts_by_path [] w)
               = Inr (map (\<lambda>(p, fp). (p, blob_sha (the_host w) (dumps l fp)))
                       fronted_posts_by_path)"
    using create_blobs_result by blast
  show "case fst (commit_from l blobs silos parent w) of
          Inl a \<Rightarrow> refs (snd (commit_from l blobs silos parent w)) = refs w
                 \<and> commit_cursor (snd (commit_from l blobs silos parent w)) = commit_cursor w
        | Inr None \<Rightarrow> refs (snd (commit_from l blobs silos parent w)) = refs w
                 \<and> commit_cursor (snd (commit_from l blobs silos parent w)) = commit_cursor w
        | Inr (Some body) \<Rightarrow>
            \<exists>tree c. tree_sha (the_host w) (tree_entries blobs) parent = Some tree
              \<and> commit_sha (the_host w) (''(syndicate): adding IDs for '' @ format_set l silos)
                   tree [parent] = Some c
              \<and> calls (snd (commit_from l blobs silos parent w)) = calls (snd (repo w))
                   @ [CreateTree (tree_entries blobs) parent,
                      CreateCommit (''(syndicate): adding IDs for '' @ format_set l silos)
                        tree [parent],
                      PutRef (ref_url w) (authorization w) c]
              \<and> refs (snd (commit_from l blobs silos parent w)) = (refs w)(ref_url w \<mapsto> c)
              \<and> commit_cursor (snd (commit_from l blobs silos parent w)) = Some c"
    by (rule commit_from_outcome [OF refl])
qed

theorem commit_is_atomic_witness:
  "batch0 \<noteq> []
   \<and> commit_cursor (snd (commit_updated_posts lib0 batch0 {''DEV''} world0)) = Some ''sha1''
   \<and> refs (snd (commit_updated_posts lib0 batch0 {''DEV''} world0)) (ref_url world0) = None
   \<and> fst (commit_from lib0 blobs0 {''DEV''} ''sha1'' world0) = Inr (Some ''{}'')
   \<and> refs (snd (commit_from lib0 blobs0 {''DEV''} ''sha1'' world0)) (ref_url world0)
       = Some ''commit of tree on sha1''
   \<and> fst (commit_from lib0 blobs0 {''DEV''} ''sha1'' world_rejecting) = Inr None
   \<and> refs (snd (commit_from lib0 blobs0 {''DEV''} ''sha1'' world_rejecting))
        (ref_url world_rejecting) = None
   \<and> commit_cursor (snd (commit_from lib0 blobs0 {''DEV''} ''sha1'' world_rejecting))
       = Some ''sha1''
   \<and> fst (repo world0) = Inr () \<and> distinct (dict_keys batch0)
   \<and> fst (create_blobs lib0 batch0 [] world0) = Inr blobs0"
proof -
  have ne: "batch0 \<noteq> []" by code_simp
  have cur: "commit_cursor world0 = Some ''sha1''" by code_simp
  have cur_r: "commit_cursor world_rejecting = Some ''sha1''" by code_simp
  have r0: "refs world0 (ref_url world0) = None" by code_simp
  have r1: "refs world_rejecting (ref_url world_rejecting) = None" by code_simp
  have ok: "fst (commit_from lib0 blobs0 {''DEV''} ''sha1'' world0) = Inr (Some ''{}'')"
    by code_simp
  have moved: "refs (snd (commit_from lib0 blobs0 {''DEV''} ''sha1'' world0)) (ref_url world0)
       = Some ''commit of tree on sha1''" by code_simp
  have no: "fst (commit_from lib0 blobs0 {''DEV''} ''sha1'' world_rejecting) = Inr None"
    by code_simp
  have rp: "fst (repo world0) = Inr ()" by code_simp
  have di: "distinct (dict_keys batch0)" by code_simp
  have bl: "map (\<lambda>(p, fp). (p, blob_sha (the_host world0) (dumps lib0 fp))) batch0 = blobs0"
    by code_simp
  note a = commit_is_atomic [OF ne, of lib0 "{''DEV''}" world0 blobs0 "''sha1''"]
  note b = commit_is_atomic [OF ne, of lib0 "{''DEV''}" world_rejecting blobs0 "''sha1''"]
  from a cur have 1:
    "commit_cursor (snd (commit_updated_posts lib0 batch0 {''DEV''} world0)) = Some ''sha1''"
    by simp
  from a r0 have 2:
    "refs (snd (commit_updated_posts lib0 batch0 {''DEV''} world0)) (ref_url world0) = None"
    by simp
  from b no r1 cur_r have 3:
    "refs (snd (commit_from lib0 blobs0 {''DEV''} ''sha1'' world_rejecting))
        (ref_url world_rejecting) = None
     \<and> commit_cursor (snd (commit_from lib0 blobs0 {''DEV''} ''sha1'' world_rejecting))
        = Some ''sha1''"
    by simp
  from a rp di bl have 4: "fst (create_blobs lib0 batch0 [] world0) = Inr blobs0"
    by simp
  from ne 1 2 ok moved no 3 rp di 4 show ?thesis by blast
qed

text \<open>
  C9. With a credential, and a silo whose listing has an empty page, \<^verbatim>\<open>fetch\<close> returns,
  having requested no page after the first empty one. When no page before the first
  empty one lists the id, the last page requested is that empty page and the result is
  "not found" (\<^verbatim>\<open>None\<close>), not an error.
\<close>

theorem fetch_not_found:
  assumes "api_key \<noteq> None" and "api_key \<noteq> Some []" and "listing (1 + k) = []"
  shows "(\<exists>found n. search_pages listing post_id 1 = Some (found, n) \<and> n \<le> 1 + k
            \<and> fetch api_key listing post_id = Some (Inr found))
       \<and> ((\<forall>j<k. listing (1 + j) \<noteq> []
                \<and> find (\<lambda>a. article_id a = post_id) (listing (1 + j)) = None)
            \<longrightarrow> fetch api_key listing post_id = Some (Inr None)
              \<and> search_pages listing post_id 1 = Some (None, 1 + k))"
proof (intro conjI impI)
  from search_pages_returns [of listing 1 k post_id, OF assms(3)] obtain found n where
    r: "search_pages listing post_id 1 = Some (found, n)" "n \<le> 1 + k" by blast
  with assms(1,2) have "fetch api_key listing post_id = Some (Inr found)"
    by (simp add: fetch_def)
  with r show "\<exists>found n. search_pages listing post_id 1 = Some (found, n) \<and> n \<le> 1 + k
            \<and> fetch api_key listing post_id = Some (Inr found)" by blast
next
  assume h: "\<forall>j<k. listing (1 + j) \<noteq> []
                \<and> find (\<lambda>a. article_id a = post_id) (listing (1 + j)) = None"
  from search_pages_exhausted [OF h assms(3)]
  show s: "search_pages listing post_id 1 = Some (None, 1 + k)" .
  with assms(1,2) show "fetch api_key listing post_id = Some (Inr None)"
    by (simp add: fetch_def)
qed

theorem fetch_not_found_witness:
  "Some ''fake_api_key'' \<noteq> None \<and> Some ''fake_api_key'' \<noteq> Some []
   \<and> listing0 1 = [\<lparr>article_id = 14, article_title = ''other''\<rparr>]
   \<and> find (\<lambda>a. article_id a = 13) (listing0 1) = None
   \<and> listing0 2 = []
   \<and> fetch (Some ''fake_api_key'') listing0 13 = Some (Inr None)
   \<and> search_pages listing0 13 1 = Some (None, 2)"
proof -
  have p1: "listing0 1 = [\<lparr>article_id = 14, article_title = ''other''\<rparr>]"
    by (simp add: listing0_def)
  have f1: "find (\<lambda>a. article_id a = 13) (listing0 1) = None"
    by (simp add: listing0_def)
  have p2: "listing0 (1 + 1) = []" by (simp add: listing0_def)
  have h: "\<forall>j<1. listing0 (1 + j) \<noteq> []
              \<and> find (\<lambda>a. article_id a = 13) (listing0 (1 + j)) = None"
    using p1 f1 by simp
  have k1: "Some ''fake_api_key'' \<noteq> None" "Some ''fake_api_key'' \<noteq> Some []" by simp_all
  have p2b: "listing0 2 = []" by (simp add: listing0_def)
  from fetch_not_found [of "Some ''fake_api_key''" listing0 1 13, OF k1 p2] h p1 f1 p2b
  show ?thesis by simp
qed

end
